theory Spec2Isabelle
  imports Complex_Main "HOL-Library.AList"
begin

section \<open>JavaScript numbers\<close>

text \<open>
  Every number of the extension is an IEEE-754 double.  A finite double is modelled by the
  rational it denotes; \<open>fl\<close> rounds an exact rational result to the nearest double (ties to
  even, gradual underflow, overflow to infinity), so that \<open>parseFloat\<close>, \<open>parseInt\<close>,
  \<open>*\<close> and \<open>+\<close> return what the engine returns.  The two zeros are identified: no
  comparison of the code tells them apart.
\<close>

datatype jsnum = Fin rat | PInf | NInf | NaN

fun bit_length :: "nat \<Rightarrow> nat" where
  "bit_length n = (if n = 0 then 0 else Suc (bit_length (n div 2)))"

declare bit_length.simps [simp del]

definition pow2 :: "int \<Rightarrow> rat" where
  "pow2 k = (if 0 \<le> k then 2 ^ nat k else 1 / 2 ^ nat (- k))"

definition ilog2 :: "rat \<Rightarrow> int" where
  "ilog2 x = (if 1 \<le> x then int (bit_length (nat \<lfloor>x\<rfloor>)) - 1
              else - int (bit_length (nat (\<lceil>1 / x\<rceil> - 1))))"

definition round_even :: "rat \<Rightarrow> int" where
  "round_even x =
     (let f = \<lfloor>x\<rfloor>; r = x - of_int f
      in if r < 1 / 2 then f else if 1 / 2 < r then f + 1 else if even f then f else f + 1)"

definition fl_pos :: "rat \<Rightarrow> jsnum" where
  "fl_pos x =
     (let q = max (ilog2 x - 52) (- 1074);
          y = of_int (round_even (x / pow2 q)) * pow2 q
      in if 1024 \<le> ilog2 y then PInf else Fin y)"

fun js_neg :: "jsnum \<Rightarrow> jsnum" where
  "js_neg (Fin x) = Fin (- x)"
| "js_neg PInf = NInf"
| "js_neg NInf = PInf"
| "js_neg NaN = NaN"

definition fl :: "rat \<Rightarrow> jsnum" where
  "fl x = (if x = 0 then Fin 0 else if 0 < x then fl_pos x else js_neg (fl_pos (- x)))"

fun js_add :: "jsnum \<Rightarrow> jsnum \<Rightarrow> jsnum" where
  "js_add NaN _ = NaN"
| "js_add _ NaN = NaN"
| "js_add PInf NInf = NaN"
| "js_add NInf PInf = NaN"
| "js_add PInf _ = PInf"
| "js_add _ PInf = PInf"
| "js_add NInf _ = NInf"
| "js_add _ NInf = NInf"
| "js_add (Fin a) (Fin b) = fl (a + b)"

fun js_sign :: "jsnum \<Rightarrow> int" where
  "js_sign (Fin x) = (if x < 0 then - 1 else if x = 0 then 0 else 1)"
| "js_sign PInf = 1"
| "js_sign NInf = - 1"
| "js_sign NaN = 0"

fun js_mul :: "jsnum \<Rightarrow> jsnum \<Rightarrow> jsnum" where
  "js_mul NaN _ = NaN"
| "js_mul _ NaN = NaN"
| "js_mul (Fin a) (Fin b) = fl (a * b)"
| "js_mul a b =
     (if js_sign a * js_sign b = 0 then NaN
      else if 0 < js_sign a * js_sign b then PInf else NInf)"

fun js_lt :: "jsnum \<Rightarrow> jsnum \<Rightarrow> bool" where
  "js_lt NaN _ = False"
| "js_lt _ NaN = False"
| "js_lt (Fin a) (Fin b) = (a < b)"
| "js_lt PInf _ = False"
| "js_lt _ PInf = True"
| "js_lt NInf NInf = False"
| "js_lt NInf _ = True"
| "js_lt _ NInf = False"

fun js_le :: "jsnum \<Rightarrow> jsnum \<Rightarrow> bool" where
  "js_le NaN _ = False"
| "js_le _ NaN = False"
| "js_le (Fin a) (Fin b) = (a \<le> b)"
| "js_le NInf _ = True"
| "js_le _ PInf = True"
| "js_le PInf _ = False"
| "js_le _ NInf = False"

definition js_gt :: "jsnum \<Rightarrow> jsnum \<Rightarrow> bool" where
  "js_gt a b = js_lt b a"

definition js_ge :: "jsnum \<Rightarrow> jsnum \<Rightarrow> bool" where
  "js_ge a b = js_le b a"

fun isNaN :: "jsnum \<Rightarrow> bool" where
  "isNaN NaN = True"
| "isNaN _ = False"

text \<open>\<open>!n\<close> for a number: zero and NaN are falsy.\<close>

fun num_truthy :: "jsnum \<Rightarrow> bool" where
  "num_truthy (Fin x) = (x \<noteq> 0)"
| "num_truthy NaN = False"
| "num_truthy _ = True"

fun math_floor :: "jsnum \<Rightarrow> jsnum" where
  "math_floor (Fin x) = Fin (of_int \<lfloor>x\<rfloor>)"
| "math_floor n = n"


section \<open>JavaScript strings\<close>

text \<open>
  A string is the list of its code units, one \<open>char\<close> each, so the model covers the code
  units \<open>0x00\<close> to \<open>0xFF\<close> (Latin-1).  On these, \<open>\s\<close> and \<open>trim\<close> see the
  seven white-space characters below, \<open>\d\<close> the ten digits, and \<open>toLowerCase\<close> maps
  \<open>A\<close>-\<open>Z\<close> and \<open>0xC0\<close>-\<open>0xDE\<close> (without \<open>0xD7\<close>) to the code unit 32 above.
\<close>

definition ws_chars :: "char list" where
  "ws_chars = [CHR 0x09, CHR 0x0A, CHR 0x0B, CHR 0x0C, CHR 0x0D, CHR 0x20, CHR 0xA0]"

definition digit_chars :: "char list" where
  "digit_chars = ''0123456789''"

definition is_ws :: "char \<Rightarrow> bool" where
  "is_ws c = (c \<in> set ws_chars)"

definition is_digit :: "char \<Rightarrow> bool" where
  "is_digit c = (c \<in> set digit_chars)"

definition trimStart :: "string \<Rightarrow> string" where
  "trimStart s = dropWhile is_ws s"

definition trim :: "string \<Rightarrow> string" where
  "trim s = rev (dropWhile is_ws (rev (dropWhile is_ws s)))"

definition toLowerCase_chr :: "char \<Rightarrow> char" where
  "toLowerCase_chr c =
     (let n = (of_char c :: nat)
      in if (65 \<le> n \<and> n \<le> 90) \<or> (192 \<le> n \<and> n \<le> 222 \<and> n \<noteq> 215)
         then char_of (n + 32) else c)"

definition toLowerCase :: "string \<Rightarrow> string" where
  "toLowerCase s = map toLowerCase_chr s"

text \<open>
  \<open>toUpperCase\<close> is applied by the code to the suffix group of the view-count pattern only
  (empty, or one of \<open>KMBkmb\<close>); the model maps \<open>a\<close>-\<open>z\<close> and leaves the rest.
\<close>

definition toUpperCase_chr :: "char \<Rightarrow> char" where
  "toUpperCase_chr c =
     (let n = (of_char c :: nat) in if 97 \<le> n \<and> n \<le> 122 then char_of (n - 32) else c)"

definition toUpperCase :: "string \<Rightarrow> string" where
  "toUpperCase s = map toUpperCase_chr s"

fun starts_with :: "string \<Rightarrow> string \<Rightarrow> bool" where
  "starts_with s [] = True"
| "starts_with [] (y # ys) = False"
| "starts_with (x # xs) (y # ys) = (x = y \<and> starts_with xs ys)"

fun js_includes :: "string \<Rightarrow> string \<Rightarrow> bool" where
  "js_includes [] t = (t = [])"
| "js_includes (x # xs) t = (starts_with (x # xs) t \<or> js_includes xs t)"

fun split_on :: "char \<Rightarrow> string \<Rightarrow> string list" where
  "split_on c [] = [[]]"
| "split_on c (x # xs) =
     (if x = c then [] # split_on c xs
      else (case split_on c xs of [] \<Rightarrow> [[x]] | p # ps \<Rightarrow> (x # p) # ps))"

text \<open>\<open>s.split(sep)[0]\<close>: the text before the first occurrence of \<open>sep\<close>.\<close>

fun split_first :: "string \<Rightarrow> string \<Rightarrow> string" where
  "split_first sep [] = []"
| "split_first sep (x # xs) = (if starts_with (x # xs) sep then [] else x # split_first sep xs)"

definition digit_val :: "char \<Rightarrow> nat" where
  "digit_val c = of_char c - 48"

definition dec_val :: "string \<Rightarrow> nat" where
  "dec_val ds = foldl (\<lambda>a c. 10 * a + digit_val c) 0 ds"

section \<open>Regular expressions\<close>

text \<open>
  The patterns of the code use character classes, sequence, alternation, optional parts,
  greedy repetition of a character class and capture groups.  \<open>bt\<close> lists, in the
  priority order of a backtracking matcher, every way the pattern matches at the start of
  the text: the rest of the text and the groups captured.  \<open>re_exec\<close> takes the first
  start position with a match, and there the first alternative, as \<open>RegExp.prototype.exec\<close>
  does.
\<close>

datatype re = Eps | Cls "char list" | StarC "char list" | Seq re re | Alt re re | Grp nat re

type_synonym caps = "(nat \<times> string) list"

fun bt :: "re \<Rightarrow> string \<times> caps \<Rightarrow> (string \<times> caps) list" where
  "bt Eps st = [st]"
| "bt (Cls cs) (s, c) =
     (case s of [] \<Rightarrow> [] | x # xs \<Rightarrow> if x \<in> set cs then [(xs, c)] else [])"
| "bt (StarC cs) (s, c) =
     (case s of [] \<Rightarrow> [(s, c)]
      | x # xs \<Rightarrow> if x \<in> set cs then bt (StarC cs) (xs, c) @ [(s, c)] else [(s, c)])"
| "bt (Seq a b) st = concat (map (bt b) (bt a st))"
| "bt (Alt a b) st = bt a st @ bt b st"
| "bt (Grp i r) (s, c) =
     map (\<lambda>(s', c'). (s', (i, take (length s - length s') s) # c')) (bt r (s, c))"

record rmatch =
  m_pre :: string
  m_all :: string
  m_post :: string
  m_caps :: caps

fun re_exec_from :: "re \<Rightarrow> string \<Rightarrow> string \<Rightarrow> rmatch option" where
  "re_exec_from r pre s =
     (case bt r (s, []) of
        (rest, c) # _ \<Rightarrow>
          Some \<lparr>m_pre = pre, m_all = take (length s - length rest) s, m_post = rest, m_caps = c\<rparr>
      | [] \<Rightarrow> (case s of [] \<Rightarrow> None | x # xs \<Rightarrow> re_exec_from r (pre @ [x]) xs))"

definition re_exec :: "re \<Rightarrow> string \<Rightarrow> rmatch option" where
  "re_exec r s = re_exec_from r [] s"

text \<open>\<open>match[i]\<close> for \<open>i \<ge> 1\<close>: \<open>None\<close> is \<open>undefined\<close>, a group that took no part.\<close>

definition m_group :: "rmatch \<Rightarrow> nat \<Rightarrow> string option" where
  "m_group m i = map_of (m_caps m) i"

text \<open>A pattern anchored with \<open>^\<close> (no \<open>m\<close> flag) is tried at position 0 only.\<close>

definition re_test_anchored :: "re \<Rightarrow> string \<Rightarrow> bool" where
  "re_test_anchored r s = (bt r (s, []) \<noteq> [])"

text \<open>\<open>s.replace(r, "")\<close> for a pattern without the \<open>g\<close> flag.\<close>

definition replace_first :: "re \<Rightarrow> string \<Rightarrow> string" where
  "replace_first r s = (case re_exec r s of None \<Rightarrow> s | Some m \<Rightarrow> m_pre m @ m_post m)"

text \<open>\<open>s.replace(/,/g, "")\<close>.\<close>

definition remove_commas :: "string \<Rightarrow> string" where
  "remove_commas s = filter (\<lambda>c. c \<noteq> CHR '','') s"

definition Plus :: "char list \<Rightarrow> re" where
  "Plus cs = Seq (Cls cs) (StarC cs)"

definition Opt :: "re \<Rightarrow> re" where
  "Opt r = Alt r Eps"

text \<open>A literal under the \<open>i\<close> flag: each character matches in either case.\<close>

definition lit_ci :: "string \<Rightarrow> re" where
  "lit_ci s = foldr (\<lambda>c r. Seq (Cls [toLowerCase_chr c, toUpperCase_chr c]) r) s Eps"

definition lit :: "string \<Rightarrow> re" where
  "lit s = foldr (\<lambda>c r. Seq (Cls [c]) r) s Eps"


section \<open>\<open>parseFloat\<close> and \<open>parseInt\<close>\<close>

text \<open>
  Both skip leading white space, read an optional sign and then the longest prefix that is
  a numeral; with no such prefix the result is NaN.  The value read is rounded to a double
  by \<open>fl\<close>.
\<close>

definition parse_sign :: "string \<Rightarrow> bool \<times> string" where
  "parse_sign s =
     (case s of [] \<Rightarrow> (False, [])
      | c # cs \<Rightarrow> if c = CHR ''-'' then (True, cs) else if c = CHR ''+'' then (False, cs)
                 else (False, s))"

definition pow10 :: "int \<Rightarrow> rat" where
  "pow10 k = (if 0 \<le> k then 10 ^ nat k else 1 / 10 ^ nat (- k))"

text \<open>The value of an \<open>ExponentPart\<close> at the start of the text, 0 when there is none.\<close>

definition exp_part :: "string \<Rightarrow> int" where
  "exp_part s =
     (case s of [] \<Rightarrow> 0
      | c # cs \<Rightarrow>
          if c = CHR ''e'' \<or> c = CHR ''E'' then
            (let (neg, r) = parse_sign cs; ds = takeWhile is_digit r
             in if ds = [] then 0 else if neg then - int (dec_val ds) else int (dec_val ds))
          else 0)"

text \<open>
  \<open>StrUnsignedDecimalLiteral\<close>: \<open>Infinity\<close>, digits with an optional fraction and
  exponent, or a fraction that starts with the dot.
\<close>

definition unsigned_decimal :: "string \<Rightarrow> jsnum" where
  "unsigned_decimal s =
     (if starts_with s ''Infinity'' then PInf
      else
        (let ds = takeWhile is_digit s;
             r1 = dropWhile is_digit s;
             (fs, r2) = (case r1 of [] \<Rightarrow> ([], r1)
                         | c # cs \<Rightarrow> if c = CHR ''.''
                                    then (takeWhile is_digit cs, dropWhile is_digit cs)
                                    else ([], r1))
         in if ds = [] \<and> fs = [] then NaN
            else fl ((of_nat (dec_val ds) + of_nat (dec_val fs) / 10 ^ length fs)
                       * pow10 (exp_part r2))))"

definition parseFloat :: "string \<Rightarrow> jsnum" where
  "parseFloat s =
     (let (neg, r) = parse_sign (trimStart s); v = unsigned_decimal r
      in if neg then js_neg v else v)"

text \<open>\<open>parseFloat(x)\<close> for a value that may be \<open>undefined\<close> (converted to the text
  \<open>undefined\<close>, which is no numeral).\<close>

fun parseFloat_u :: "string option \<Rightarrow> jsnum" where
  "parseFloat_u None = NaN"
| "parseFloat_u (Some s) = parseFloat s"

text \<open>\<open>parseInt(s, 10)\<close>.\<close>

definition parseInt10 :: "string \<Rightarrow> jsnum" where
  "parseInt10 s =
     (let (neg, r) = parse_sign (trimStart s); ds = takeWhile is_digit r
      in if ds = [] then NaN
         else (let v = fl (of_nat (dec_val ds)) in if neg then js_neg v else v))"

definition hex_chars :: "char list" where
  "hex_chars = ''0123456789abcdefABCDEF''"

definition hex_digit_val :: "char \<Rightarrow> nat" where
  "hex_digit_val c =
     (if is_digit c then digit_val c
      else if c \<in> set ''abcdef'' then of_char c - 87 else of_char c - 55)"

definition hex_val :: "string \<Rightarrow> nat" where
  "hex_val ds = foldl (\<lambda>a c. 16 * a + hex_digit_val c) 0 ds"

text \<open>\<open>parseInt(s)\<close> with no radix: base 16 after a \<open>0x\<close> prefix, base 10 otherwise.\<close>

definition parseInt :: "string \<Rightarrow> jsnum" where
  "parseInt s =
     (let (neg, r) = parse_sign (trimStart s);
          hex = (starts_with r ''0x'' \<or> starts_with r ''0X'');
          ds = (if hex then takeWhile (\<lambda>c. c \<in> set hex_chars) (drop 2 r)
                else takeWhile is_digit r)
      in if ds = [] then NaN
         else (let v = fl (of_nat (if hex then hex_val ds else dec_val ds))
               in if neg then js_neg v else v))"

fun parseInt_u :: "string option \<Rightarrow> jsnum" where
  "parseInt_u None = NaN"
| "parseInt_u (Some s) = parseInt s"

text \<open>
  Two classes of input used in the statements about \<open>parseDuration\<close>: a text that is a
  non-empty run of digits, and a text in which \<open>parseInt\<close> finds an integer (after white
  space and an optional sign the next character is a digit).
\<close>

definition is_digits :: "string \<Rightarrow> bool" where
  "is_digits s = (s \<noteq> [] \<and> list_all is_digit s)"

definition has_leading_integer :: "string \<Rightarrow> bool" where
  "has_leading_integer s =
     (case snd (parse_sign (trimStart s)) of [] \<Rightarrow> False | c # _ \<Rightarrow> is_digit c)"

text \<open>
  A text that starts with an integer, in its pieces: white space \<open>w\<close>, a sign \<open>sg\<close>
  (none, \<open>+\<close> or \<open>-\<close>), a digit string \<open>d\<close> and a rest \<open>r\<close> that does not go on with a
  digit; and the integer such a text starts with.
\<close>

definition integer_part :: "string \<Rightarrow> string \<Rightarrow> string \<Rightarrow> string \<Rightarrow> bool" where
  "integer_part w sg d r =
     (list_all is_ws w \<and> sg \<in> set [[], ''+'', ''-''] \<and> is_digits d
      \<and> (case r of [] \<Rightarrow> True | c # _ \<Rightarrow> \<not> is_digit c))"

definition integer_of :: "string \<Rightarrow> string \<Rightarrow> int" where
  "integer_of sg d = (if sg = ''-'' then - int (dec_val d) else int (dec_val d))"

section \<open>Quantity parsers (content.js, utils.js)\<close>

text \<open>
  The argument of a parser is a string, \<open>null\<close> or \<open>undefined\<close>.  A method call on
  \<open>undefined\<close> raises \<open>TypeError\<close>; the parsers return \<open>Inl\<close> where the code would
  raise and \<open>Inr\<close> with the number it returns.
\<close>

datatype exn = TypeError

datatype jsarg = JUndefined | JNull | JStr string

text \<open>\<open>/views?/i\<close>\<close>

definition views_word_re :: re where
  "views_word_re = Seq (lit_ci ''view'') (Opt (lit_ci ''s''))"

text \<open>\<open>/([\d\.]+)\s*([KMB]?)/i\<close>\<close>

definition count_re :: re where
  "count_re =
     Seq (Grp 1 (Plus (digit_chars @ ''.'')))
       (Seq (StarC ws_chars) (Grp 2 (Opt (Cls ''KMBkmb''))))"

definition parseViewCount :: "jsarg \<Rightarrow> exn + jsnum" where
  "parseViewCount text =
     (case text of
        JStr t \<Rightarrow>
          if t = [] then Inr (Fin 0)
          else
            (let cleaned = trim (remove_commas (replace_first views_word_re t))
             in case re_exec count_re cleaned of
                  Some m \<Rightarrow>
                    (let number = parseFloat_u (m_group m 1)
                     in case m_group m 2 of
                          None \<Rightarrow> Inl TypeError
                        | Some g \<Rightarrow>
                            (let suffix = toUpperCase g
                             in Inr (if suffix = ''K'' then js_mul number (Fin 1000)
                                     else if suffix = ''M'' then js_mul number (Fin 1000000)
                                     else if suffix = ''B'' then js_mul number (Fin 1000000000)
                                     else number)))
                | None \<Rightarrow>
                    (let directNumber = parseFloat cleaned
                     in Inr (if isNaN directNumber then Fin 0 else directNumber)))
      | _ \<Rightarrow> Inr (Fin 0))"

text \<open>\<open>/(\d+)\s*h(our)?s?/i\<close>, \<open>/(\d+)\s*m(in(ute)?)?s?/i\<close>, \<open>/(\d+)\s*s(ec(ond)?)?s?/i\<close>\<close>

definition hour_re :: re where
  "hour_re =
     Seq (Grp 1 (Plus digit_chars))
       (Seq (StarC ws_chars)
         (Seq (lit_ci ''h'') (Seq (Opt (Grp 2 (lit_ci ''our''))) (Opt (lit_ci ''s'')))))"

definition min_re :: re where
  "min_re =
     Seq (Grp 1 (Plus digit_chars))
       (Seq (StarC ws_chars)
         (Seq (lit_ci ''m'')
           (Seq (Opt (Grp 2 (Seq (lit_ci ''in'') (Opt (Grp 3 (lit_ci ''ute'')))))) 
             (Opt (lit_ci ''s'')))))"

definition sec_re :: re where
  "sec_re =
     Seq (Grp 1 (Plus digit_chars))
       (Seq (StarC ws_chars)
         (Seq (lit_ci ''s'')
           (Seq (Opt (Grp 2 (Seq (lit_ci ''ec'') (Opt (Grp 3 (lit_ci ''ond''))))))
             (Opt (lit_ci ''s'')))))"

definition parseDuration :: "jsarg \<Rightarrow> exn + jsnum" where
  "parseDuration text =
     (case text of
        JStr t \<Rightarrow>
          if t = [] then Inr (Fin 0)
          else
            (let cleaned = trim t;
                 colon = js_includes cleaned '':'';
                 parts = map (\<lambda>part. parseInt10 (trim part)) (split_on CHR '':'' cleaned)
             in if colon \<and> list_ex isNaN parts then Inr (Fin 0)
                else if colon \<and> length parts = 2 then
                  Inr (js_add (js_mul (parts ! 0) (Fin 60)) (parts ! 1))
                else if colon \<and> length parts = 3 then
                  Inr (js_add (js_add (js_mul (parts ! 0) (Fin 3600))
                                 (js_mul (parts ! 1) (Fin 60))) (parts ! 2))
                else
                  (let hourMatch = re_exec hour_re cleaned;
                       minMatch = re_exec min_re cleaned;
                       secMatch = re_exec sec_re cleaned;
                       t0 = Fin 0;
                       t1 = (case hourMatch of None \<Rightarrow> t0
                             | Some m \<Rightarrow> js_add t0 (js_mul (parseInt_u (m_group m 1)) (Fin 3600)));
                       t2 = (case minMatch of None \<Rightarrow> t1
                             | Some m \<Rightarrow> js_add t1 (js_mul (parseInt_u (m_group m 1)) (Fin 60)));
                       t3 = (case secMatch of None \<Rightarrow> t2
                             | Some m \<Rightarrow> js_add t2 (parseInt_u (m_group m 1)))
                   in Inr t3))
      | _ \<Rightarrow> Inr (Fin 0))"

text \<open>\<open>/(\d+)\s+year/i\<close>\<close>

definition year_re :: re where
  "year_re = Seq (Grp 1 (Plus digit_chars)) (Seq (Plus ws_chars) (lit_ci ''year''))"

definition parseVideoAge :: "jsarg \<Rightarrow> exn + jsnum" where
  "parseVideoAge text =
     (case text of
        JStr t \<Rightarrow>
          if t = [] then Inr (Fin 0)
          else (case re_exec year_re t of
                  Some m \<Rightarrow> Inr (parseInt_u (m_group m 1))
                | None \<Rightarrow> Inr (Fin 0))
      | _ \<Rightarrow> Inr (Fin 0))"


section \<open>Filter decisions and the history log\<close>

text \<open>
  The \<open>details\<close> text of a decision is built from a template; the model keeps the template
  and the values put into it, not the rendered text.
\<close>

datatype details =
    NoViewCount
  | LowViews string jsnum
  | DurationOutside string jsnum jsnum jsnum
  | TooOld string jsnum
  | BannedKeyword string

record history_entry =
  h_title :: string
  h_reason :: "details option"
  h_timestamp :: string

text \<open>
  \<open>storeFilteredVideo\<close> (content.js) and \<open>addFilteredVideo\<close> (settings-manager.js): the
  body of the callback, run on the stored list that \<open>get\<close> has read (\<open>None\<close> when the
  key is absent), with the clock reading \<open>now\<close> for \<open>new Date().toISOString()\<close>; the
  result is the list that \<open>set\<close> writes back.  The reason is the \<open>details\<close> of the
  decision as the pass hands it over.
\<close>

definition storeFilteredVideo ::
    "string \<Rightarrow> history_entry list option \<Rightarrow> string \<Rightarrow> details option
      \<Rightarrow> history_entry list" where
  "storeFilteredVideo now stored title reason =
     (let videos = (case stored of None \<Rightarrow> [] | Some v \<Rightarrow> v);
          videos = videos @ [\<lparr>h_title = title, h_reason = reason, h_timestamp = now\<rparr>]
      in if length videos > 100 then tl videos else videos)"

section \<open>Records, settings and the four predicates\<close>

text \<open>
  The record \<open>extractVideoData\<close> returns; \<open>None\<close> is \<open>null\<close> (or \<open>undefined\<close>).
\<close>

record videoData =
  title :: "string option"
  viewCount :: "string option"
  duration :: "string option"
  publishTime :: "string option"
  videoId :: "string option"

text \<open>\<open>!x\<close> for a value that is a string or \<open>null\<close>: \<open>null\<close> and the empty string are falsy.\<close>

fun str_falsy :: "string option \<Rightarrow> bool" where
  "str_falsy None = True"
| "str_falsy (Some s) = (s = [])"

text \<open>
  The settings object.  content.js reads the key \<open>keywordsFilterEnabled\<close>, the modules
  under src/ read \<open>keywordFilterEnabled\<close>; an absent flag is falsy.  A numeric setting that
  is absent behaves as NaN in every comparison and truth test of the code, so it is
  modelled by NaN.
\<close>

record settings =
  viewsFilterEnabled :: bool
  durationFilterEnabled :: bool
  ageFilterEnabled :: bool
  keywordsFilterEnabled :: bool
  keywordFilterEnabled :: bool
  minViews :: jsnum
  minDuration :: jsnum
  maxDuration :: jsnum
  maxAge :: jsnum
  bannedKeywords :: "string list option"

record decision =
  shouldFilter :: bool
  reason :: "string option"
  details :: "details option"

definition no_filter :: decision where
  "no_filter = \<lparr>shouldFilter = False, reason = None, details = None\<rparr>"

definition filtered :: "string \<Rightarrow> details \<Rightarrow> decision" where
  "filtered r d = \<lparr>shouldFilter = True, reason = Some r, details = Some d\<rparr>"

text \<open>\<open>checkViewsFilter\<close> of content.js.\<close>

definition checkViewsFilter :: "videoData \<Rightarrow> settings \<Rightarrow> exn + decision" where
  "checkViewsFilter vd st =
     (if \<not> viewsFilterEnabled st \<or> js_le (minViews st) (Fin 0) then Inr no_filter
      else if str_falsy (viewCount vd) then Inr (filtered ''no-views'' NoViewCount)
      else (case viewCount vd of
              None \<Rightarrow> Inr (filtered ''no-views'' NoViewCount)
            | Some vc \<Rightarrow>
                (case parseViewCount (JStr vc) of
                   Inl e \<Rightarrow> Inl e
                 | Inr views \<Rightarrow>
                     if js_lt views (minViews st) then Inr (filtered ''views'' (LowViews vc views))
                     else Inr no_filter)))"

text \<open>\<open>checkViewsFilter\<close> of the filter-functions module under src/: a record without a
  view count is reported with the reason \<open>views\<close>.\<close>

definition mod_checkViewsFilter :: "videoData \<Rightarrow> settings \<Rightarrow> exn + decision" where
  "mod_checkViewsFilter vd st =
     (if \<not> viewsFilterEnabled st \<or> js_le (minViews st) (Fin 0) then Inr no_filter
      else if str_falsy (viewCount vd) then Inr (filtered ''views'' NoViewCount)
      else (case viewCount vd of
              None \<Rightarrow> Inr (filtered ''views'' NoViewCount)
            | Some vc \<Rightarrow>
                (case parseViewCount (JStr vc) of
                   Inl e \<Rightarrow> Inl e
                 | Inr views \<Rightarrow>
                     if js_lt views (minViews st) then Inr (filtered ''views'' (LowViews vc views))
                     else Inr no_filter)))"

text \<open>\<open>checkDurationFilter\<close> and \<open>checkAgeFilter\<close>: the same text in content.js and in
  the module.\<close>

definition checkDurationFilter :: "videoData \<Rightarrow> settings \<Rightarrow> exn + decision" where
  "checkDurationFilter vd st =
     (if \<not> durationFilterEnabled st then Inr no_filter
      else if \<not> num_truthy (minDuration st) \<and> \<not> num_truthy (maxDuration st) then Inr no_filter
      else if str_falsy (duration vd) then Inr no_filter
      else (case duration vd of
              None \<Rightarrow> Inr no_filter
            | Some d \<Rightarrow>
                (case parseDuration (JStr d) of
                   Inl e \<Rightarrow> Inl e
                 | Inr durationSeconds \<Rightarrow>
                     (let minOk = (\<not> num_truthy (minDuration st)
                                     \<or> js_ge durationSeconds (minDuration st));
                          maxOk = (\<not> num_truthy (maxDuration st)
                                     \<or> js_le durationSeconds (maxDuration st))
                      in if \<not> minOk \<or> \<not> maxOk
                         then Inr (filtered ''duration''
                                 (DurationOutside d durationSeconds (minDuration st) (maxDuration st)))
                         else Inr no_filter))))"

definition checkAgeFilter :: "videoData \<Rightarrow> settings \<Rightarrow> exn + decision" where
  "checkAgeFilter vd st =
     (if \<not> ageFilterEnabled st \<or> js_le (maxAge st) (Fin 0) then Inr no_filter
      else if str_falsy (publishTime vd) then Inr no_filter
      else (case publishTime vd of
              None \<Rightarrow> Inr no_filter
            | Some pt \<Rightarrow>
                (case parseVideoAge (JStr pt) of
                   Inl e \<Rightarrow> Inl e
                 | Inr videoAge \<Rightarrow>
                     if js_gt videoAge (maxAge st) then Inr (filtered ''age'' (TooOld pt videoAge))
                     else Inr no_filter)))"

text \<open>The loop over the banned keywords: the first non-empty keyword the lower-cased
  title contains.\<close>

fun keyword_loop :: "string \<Rightarrow> string list \<Rightarrow> decision" where
  "keyword_loop titleLower [] = no_filter"
| "keyword_loop titleLower (keyword # rest) =
     (if keyword \<noteq> [] \<and> js_includes titleLower (toLowerCase keyword)
      then filtered ''keyword'' (BannedKeyword keyword)
      else keyword_loop titleLower rest)"

definition keywords_body :: "bool \<Rightarrow> videoData \<Rightarrow> settings \<Rightarrow> exn + decision" where
  "keywords_body enabled vd st =
     (if \<not> enabled then Inr no_filter
      else (case bannedKeywords st of
              None \<Rightarrow> Inr no_filter
            | Some kws \<Rightarrow>
                if length kws = 0 then Inr no_filter
                else (case title vd of
                        None \<Rightarrow> Inr no_filter
                      | Some t \<Rightarrow> if t = [] then Inr no_filter
                                  else Inr (keyword_loop (toLowerCase t) kws))))"

text \<open>\<open>checkKeywordsFilter\<close> of content.js tests \<open>settings.keywordsFilterEnabled\<close>, the one
  of the module \<open>settings.keywordFilterEnabled\<close>; the rest of the text is the same.\<close>

definition checkKeywordsFilter :: "videoData \<Rightarrow> settings \<Rightarrow> exn + decision" where
  "checkKeywordsFilter vd st = keywords_body (keywordsFilterEnabled st) vd st"

definition mod_checkKeywordsFilter :: "videoData \<Rightarrow> settings \<Rightarrow> exn + decision" where
  "mod_checkKeywordsFilter vd st = keywords_body (keywordFilterEnabled st) vd st"

definition checkChannelFilter :: "videoData \<Rightarrow> settings \<Rightarrow> exn + decision" where
  "checkChannelFilter vd st = Inr no_filter"

section \<open>The two orchestrators\<close>

text \<open>
  content.js, \<open>runAllFilters\<close>: the array \<open>filters\<close> of the four results, computed in
  order, then \<open>filters.find(f => f.shouldFilter)\<close>.
\<close>

definition triggeredFilter :: "videoData \<Rightarrow> settings \<Rightarrow> exn + decision option" where
  "triggeredFilter vd st =
     (case checkViewsFilter vd st of Inl e \<Rightarrow> Inl e | Inr f1 \<Rightarrow>
      case checkDurationFilter vd st of Inl e \<Rightarrow> Inl e | Inr f2 \<Rightarrow>
      case checkAgeFilter vd st of Inl e \<Rightarrow> Inl e | Inr f3 \<Rightarrow>
      case checkKeywordsFilter vd st of Inl e \<Rightarrow> Inl e | Inr f4 \<Rightarrow>
        Inr (find shouldFilter [f1, f2, f3, f4]))"

text \<open>The module: \<open>getAllFilterFunctions\<close> and the loop of \<open>applyAllFilters\<close>, which
  returns at the first result with \<open>shouldFilter\<close> and \<open>null\<close> after the last.\<close>

definition getAllFilterFunctions :: "(videoData \<Rightarrow> settings \<Rightarrow> exn + decision) list" where
  "getAllFilterFunctions =
     [mod_checkViewsFilter, checkDurationFilter, checkAgeFilter, mod_checkKeywordsFilter,
      checkChannelFilter]"

fun apply_loop ::
    "(videoData \<Rightarrow> settings \<Rightarrow> exn + decision) list \<Rightarrow> videoData \<Rightarrow> settings
      \<Rightarrow> exn + decision option" where
  "apply_loop [] vd st = Inr None"
| "apply_loop (filterFunc # rest) vd st =
     (case filterFunc vd st of
        Inl e \<Rightarrow> Inl e
      | Inr result \<Rightarrow> if shouldFilter result then Inr (Some result) else apply_loop rest vd st)"

definition applyAllFilters :: "videoData \<Rightarrow> settings \<Rightarrow> exn + decision option" where
  "applyAllFilters vd st = apply_loop getAllFilterFunctions vd st"

section \<open>Field extraction (content.js, extractor.js)\<close>

text \<open>
  What the extractor reads of the page: for a card, the element \<open>querySelector\<close> returns
  for a selector (\<open>None\<close> when there is none) and the card's \<open>innerText\<close>; for an element,
  its text and the three attributes read.  The attributes and the style the scan writes
  are fields of the card as well.
\<close>

record element =
  textContent :: "string option"
  attr_title :: "string option"
  attr_aria_label :: "string option"
  attr_data_video_id :: "string option"
  el_innerText :: "string option"

record card =
  querySelector :: "string \<Rightarrow> element option"
  innerText :: "string option"
  data_filtered :: "string option"
  data_filter_reason :: "string option"
  style_display :: string

text \<open>\<open>a || b\<close> on values that are strings, \<open>null\<close> or \<open>undefined\<close>.\<close>

definition js_or :: "string option \<Rightarrow> string option \<Rightarrow> string option" where
  "js_or a b = (if str_falsy a then b else a)"

text \<open>\<open>/^\d+:\d+/\<close> and \<open>/\d+:\d+/\<close>\<close>

definition dur_re :: re where
  "dur_re = Seq (Plus digit_chars) (Seq (Cls '':'') (Plus digit_chars))"

text \<open>\<open>/(\d+(?:\.\d+)?[KMB]?)\s*views?/i\<close>\<close>

definition view_re :: re where
  "view_re =
     Seq (Grp 1 (Seq (Plus digit_chars)
                  (Seq (Opt (Seq (Cls ''.'') (Plus digit_chars))) (Opt (Cls ''KMBkmb'')))))
       (Seq (StarC ws_chars) (Seq (lit_ci ''view'') (Opt (lit_ci ''s''))))"

text \<open>\<open>/No views?/i\<close>\<close>

definition no_views_re :: re where
  "no_views_re = Seq (lit_ci ''No view'') (Opt (lit_ci ''s''))"

text \<open>\<open>(second|minute|hour|day|week|month|year)\<close>\<close>

definition unit_re :: re where
  "unit_re =
     Alt (lit_ci ''second'') (Alt (lit_ci ''minute'') (Alt (lit_ci ''hour'') (Alt (lit_ci ''day'')
       (Alt (lit_ci ''week'') (Alt (lit_ci ''month'') (lit_ci ''year''))))))"

text \<open>\<open>/(\d+)\s*(second|minute|hour|day|week|month|year)s?\s*ago/i\<close>\<close>

definition ago_re :: re where
  "ago_re =
     Seq (Grp 1 (Plus digit_chars))
       (Seq (StarC ws_chars)
         (Seq (Grp 2 unit_re) (Seq (Opt (lit_ci ''s'')) (Seq (StarC ws_chars) (lit_ci ''ago'')))))"

text \<open>\<open>/streamed\s+(\d+)\s*(second|...|year)s?\s*ago/i\<close>\<close>

definition streamed_re :: re where
  "streamed_re = Seq (lit_ci ''streamed'') (Seq (Plus ws_chars) ago_re)"

text \<open>\<open>/streamed\s+(\d+\s*(?:second|...|year)s?\s*ago)/i\<close>\<close>

definition streamed_group_re :: re where
  "streamed_group_re =
     Seq (lit_ci ''streamed'')
       (Seq (Plus ws_chars)
         (Grp 1 (Seq (Plus digit_chars)
                  (Seq (StarC ws_chars)
                    (Seq unit_re (Seq (Opt (lit_ci ''s'')) (Seq (StarC ws_chars) (lit_ci ''ago''))))))))"

definition titleSelectors :: "string list" where
  "titleSelectors =
     [''#video-title'', ''a#video-title-link'', ''#video-title-link'', ''h3 a'',
      ''yt-formatted-string#video-title'', ''[aria-label*='by']'']"

definition durationSelectors :: "string list" where
  "durationSelectors =
     [''badge-shape .yt-badge-shape__text'', ''badge-shape div'', ''.yt-badge-shape__text'',
      ''yt-thumbnail-badge-view-model'', ''ytd-thumbnail-overlay-time-status-renderer span'',
      ''span.ytd-thumbnail-overlay-time-status-renderer'', ''#time-status span'',
      ''.badge-style-type-simple'']"

definition thumbSelector :: string where
  "thumbSelector = ''a#thumbnail, a[href*='/watch']''"

text \<open>The text a title element gives: its trimmed text, else its trimmed \<open>title\<close>
  attribute, else its \<open>aria-label\<close> up to \<open>by\<close>, trimmed.\<close>

definition title_of :: "element \<Rightarrow> string option" where
  "title_of e =
     js_or (map_option trim (textContent e))
       (js_or (map_option trim (attr_title e))
          (map_option (\<lambda>l. trim (split_first '' by '' l)) (attr_aria_label e)))"

text \<open>The loop over \<open>durationSelectors\<close>: the first text with the prefix digits, colon,
  digits.\<close>

fun duration_loop :: "card \<Rightarrow> string list \<Rightarrow> string option" where
  "duration_loop c [] = None"
| "duration_loop c (selector # rest) =
     (case querySelector c selector of
        None \<Rightarrow> duration_loop c rest
      | Some el \<Rightarrow>
          (case map_option trim (textContent el) of
             None \<Rightarrow> duration_loop c rest
           | Some text \<Rightarrow>
               if text \<noteq> [] \<and> re_test_anchored dur_re text then Some text
               else duration_loop c rest))"

definition duration_fallback :: "card \<Rightarrow> string option" where
  "duration_fallback c =
     (case querySelector c thumbSelector of
        None \<Rightarrow> None
      | Some thumbLink \<Rightarrow>
          (case map_option trim (el_innerText thumbLink) of
             None \<Rightarrow> None
           | Some thumbText \<Rightarrow> map_option m_all (re_exec dur_re thumbText)))"

definition extract_duration :: "card \<Rightarrow> string option" where
  "extract_duration c =
     (let d = duration_loop c durationSelectors
      in if str_falsy d then (case duration_fallback c of None \<Rightarrow> d | Some t \<Rightarrow> Some t) else d)"

definition extract_viewCount :: "string \<Rightarrow> string option" where
  "extract_viewCount fullText =
     (case re_exec view_re fullText of
        Some viewMatch \<Rightarrow> Some (m_all viewMatch)
      | None \<Rightarrow> if re_exec no_views_re fullText \<noteq> None then Some ''No views'' else None)"

definition extract_publishTime :: "string \<Rightarrow> string option" where
  "extract_publishTime fullText =
     (case re_exec ago_re fullText of
        Some timeMatch \<Rightarrow> Some (m_all timeMatch)
      | None \<Rightarrow>
          if re_exec streamed_re fullText \<noteq> None
          then (case re_exec streamed_group_re fullText of
                  None \<Rightarrow> None
                | Some streamMatch \<Rightarrow> m_group streamMatch 1)
          else None)"

text \<open>\<open>extractVideoData\<close> of content.js: the title comes from the first title element
  found.\<close>

definition extractVideoData :: "card \<Rightarrow> videoData" where
  "extractVideoData c =
     (let fullText = (case innerText c of None \<Rightarrow> [] | Some t \<Rightarrow> t)
      in \<lparr>title = (case List.find (\<lambda>e. e \<noteq> None) (map (querySelector c) titleSelectors) of
                    Some (Some titleElement) \<Rightarrow> title_of titleElement
                  | _ \<Rightarrow> None),
          viewCount = extract_viewCount fullText,
          duration = extract_duration c,
          publishTime = extract_publishTime fullText,
          videoId = (case querySelector c ''[data-video-id]'' of
                       None \<Rightarrow> None
                     | Some videoData \<Rightarrow> attr_data_video_id videoData)\<rparr>)"

text \<open>\<open>extractVideoData\<close> of extractor.js: the loop over the title selectors goes on
  until an element gives a non-empty title; an empty video id becomes \<open>null\<close>.\<close>

fun title_loop :: "card \<Rightarrow> string list \<Rightarrow> string option \<Rightarrow> string option" where
  "title_loop c [] t = t"
| "title_loop c (selector # rest) t =
     (case querySelector c selector of
        None \<Rightarrow> title_loop c rest t
      | Some titleElement \<Rightarrow>
          (let t' = title_of titleElement
           in if \<not> str_falsy t' then t' else title_loop c rest t'))"

definition mod_extractVideoData :: "card \<Rightarrow> videoData" where
  "mod_extractVideoData c =
     (let fullText = (case innerText c of None \<Rightarrow> [] | Some t \<Rightarrow> t)
      in \<lparr>title = title_loop c titleSelectors None,
          viewCount = extract_viewCount fullText,
          duration = extract_duration c,
          publishTime = extract_publishTime fullText,
          videoId = (case querySelector c ''[data-video-id]'' of
                       None \<Rightarrow> None
                     | Some el \<Rightarrow> js_or (attr_data_video_id el) None)\<rparr>)"

section \<open>The scan (content.js \<open>runAllFilters\<close>, engine \<open>runFilters\<close>)\<close>

text \<open>
  A statistics object is the list of its keys with their values, in insertion order.
  Reading an absent key gives \<open>undefined\<close>, which is NaN as a number; \<open>o[k]++\<close> writes
  the old value plus one and adds the key at the end when it is new.
\<close>

type_synonym stats = "(string \<times> jsnum) list"

definition zero_stats :: stats where
  "zero_stats =
     [(''views'', Fin 0), (''keywords'', Fin 0), (''duration'', Fin 0), (''age'', Fin 0),
      (''total'', Fin 0)]"

definition stats_get :: "stats \<Rightarrow> string \<Rightarrow> jsnum" where
  "stats_get s k = (case map_of s k of None \<Rightarrow> NaN | Some v \<Rightarrow> v)"

definition stats_incr :: "stats \<Rightarrow> string \<Rightarrow> stats" where
  "stats_incr s k = AList.update k (js_add (stats_get s k) (Fin 1)) s"

text \<open>\<open>g[k] += d[k]\<close>\<close>

definition stats_add_to :: "stats \<Rightarrow> stats \<Rightarrow> string \<Rightarrow> stats" where
  "stats_add_to g d k = AList.update k (js_add (stats_get g k) (stats_get d k)) g"

definition merge_stats :: "stats \<Rightarrow> stats \<Rightarrow> stats" where
  "merge_stats g d =
     foldl (\<lambda>a k. stats_add_to a d k) g [''views'', ''keywords'', ''duration'', ''age'', ''total'']"

text \<open>A property key made of a value that may be \<open>undefined\<close>.\<close>

fun key_of :: "string option \<Rightarrow> string" where
  "key_of None = ''undefined''"
| "key_of (Some s) = s"

text \<open>\<open>videoElement.hasAttribute("data-filtered")\<close>\<close>

definition tagged :: "card \<Rightarrow> bool" where
  "tagged c = (data_filtered c \<noteq> None)"

text \<open>Hiding a card: the style and the two attributes written by the scan
  (\<open>hideVideoElement\<close> in the module).\<close>

definition hideVideoElement :: "card \<Rightarrow> string option \<Rightarrow> card" where
  "hideVideoElement c r =
     c\<lparr>style_display := ''none'', data_filtered := Some ''true'',
       data_filter_reason := Some (key_of r)\<rparr>"

text \<open>
  The variables of one pass: the cards already visited (as the pass leaves them), the
  statistics of the pass, and the calls of \<open>storeFilteredVideo\<close> made so far.
\<close>

record scan_state =
  cards_done :: "card list"
  currentStats :: stats
  newFilters :: bool
  processedCount :: nat
  alreadyFilteredCount :: nat
  store_calls :: "(string \<times> details option) list"

definition scan_init :: scan_state where
  "scan_init =
     \<lparr>cards_done = [], currentStats = zero_stats, newFilters = False, processedCount = 0,
      alreadyFilteredCount = 0, store_calls = []\<rparr>"

text \<open>
  The body of the \<open>forEach\<close> callback, the same in both files but for the extractor
  \<open>ex\<close> and the orchestrator \<open>ev\<close> it calls.
\<close>

definition process_card ::
    "(card \<Rightarrow> videoData) \<Rightarrow> (videoData \<Rightarrow> settings \<Rightarrow> exn + decision option) \<Rightarrow> settings
      \<Rightarrow> card \<Rightarrow> scan_state \<Rightarrow> exn + scan_state" where
  "process_card ex ev st c s =
     (if tagged c then
        Inr (s\<lparr>alreadyFilteredCount := Suc (alreadyFilteredCount s),
               cards_done := cards_done s @ [c]\<rparr>)
      else
        (let videoData = ex c;
             ttl = (if str_falsy (title videoData) then ''Unknown title''
                    else key_of (title videoData))
         in case ev videoData st of
              Inl e \<Rightarrow> Inl e
            | Inr None \<Rightarrow>
                Inr (s\<lparr>processedCount := Suc (processedCount s),
                       cards_done := cards_done s @ [c]\<rparr>)
            | Inr (Some f) \<Rightarrow>
                Inr (s\<lparr>processedCount := Suc (processedCount s),
                       cards_done := cards_done s @ [hideVideoElement c (reason f)],
                       currentStats := stats_incr (stats_incr (currentStats s) (key_of (reason f)))
                                         ''total'',
                       newFilters := True,
                       store_calls := store_calls s @ [(ttl, details f)]\<rparr>)))"

text \<open>\<open>videoCards.forEach\<close>: an exception leaves the loop; the cards not yet visited stay
  as they are.\<close>

fun scan_cards ::
    "(card \<Rightarrow> scan_state \<Rightarrow> exn + scan_state) \<Rightarrow> card list \<Rightarrow> scan_state
      \<Rightarrow> scan_state \<times> exn option" where
  "scan_cards f [] s = (s, None)"
| "scan_cards f (c # cs) s =
     (case f c s of
        Inl e \<Rightarrow> (s\<lparr>cards_done := cards_done s @ c # cs\<rparr>, Some e)
      | Inr s' \<Rightarrow> scan_cards f cs s')"

text \<open>
  The page: the cards \<open>querySelectorAll\<close> returns, the running totals (\<open>filterStats\<close>,
  \<open>this.stats\<close>) and the totals last written to storage.  A run gives the page after it,
  the delta of the pass (\<open>None\<close> when the function returned before the pass), the
  calls of \<open>storeFilteredVideo\<close> and the exception raised, if any.
\<close>

record page =
  videoCards :: "card list"
  filterStats :: stats
  saved_filterStats :: "stats option"

record run =
  page_after :: page
  delta :: "stats option"
  stored :: "(string \<times> details option) list"
  raised :: "exn option"

definition finish_run :: "page \<Rightarrow> scan_state \<times> exn option \<Rightarrow> run" where
  "finish_run p r =
     (case r of
        (s, Some e) \<Rightarrow>
          \<lparr>page_after = p\<lparr>videoCards := cards_done s\<rparr>, delta = Some (currentStats s),
           stored = store_calls s, raised = Some e\<rparr>
      | (s, None) \<Rightarrow>
          if newFilters s then
            \<lparr>page_after = p\<lparr>videoCards := cards_done s,
                             filterStats := merge_stats (filterStats p) (currentStats s),
                             saved_filterStats := Some (merge_stats (filterStats p) (currentStats s))\<rparr>,
             delta = Some (currentStats s), stored = store_calls s, raised = None\<rparr>
          else
            \<lparr>page_after = p\<lparr>videoCards := cards_done s\<rparr>, delta = Some (currentStats s),
             stored = store_calls s, raised = None\<rparr>)"

definition not_run :: "page \<Rightarrow> run" where
  "not_run p = \<lparr>page_after = p, delta = None, stored = [], raised = None\<rparr>"

text \<open>\<open>runAllFilters\<close> of content.js, with the global \<open>filterSettings\<close> as parameter.\<close>

definition runAllFilters :: "settings \<Rightarrow> page \<Rightarrow> run" where
  "runAllFilters st p =
     (if \<not> viewsFilterEnabled st \<and> \<not> durationFilterEnabled st \<and> \<not> keywordsFilterEnabled st
         \<and> \<not> ageFilterEnabled st
      then not_run p
      else finish_run p
             (scan_cards (process_card extractVideoData triggeredFilter st) (videoCards p) scan_init))"

text \<open>\<open>runFilters\<close> of the engine, with \<open>this.isInitialized\<close> and \<open>this.settings\<close> as
  parameters.\<close>

definition runFilters :: "bool \<Rightarrow> settings option \<Rightarrow> page \<Rightarrow> run" where
  "runFilters isInitialized this_settings p =
     (case this_settings of
        None \<Rightarrow> not_run p
      | Some st \<Rightarrow>
          if \<not> isInitialized then not_run p
          else if \<not> (viewsFilterEnabled st \<or> durationFilterEnabled st \<or> keywordFilterEnabled st
                      \<or> ageFilterEnabled st)
          then not_run p
          else finish_run p
                 (scan_cards (process_card mod_extractVideoData applyAllFilters st) (videoCards p)
                    scan_init))"

text \<open>
  Notions used in the statements about a pass: the card a pass leaves in the place of a
  card, and the cards a pass has newly filtered (untagged before, tagged after).
\<close>

definition card_after ::
    "(card \<Rightarrow> videoData) \<Rightarrow> (videoData \<Rightarrow> settings \<Rightarrow> exn + decision option) \<Rightarrow> settings
      \<Rightarrow> card \<Rightarrow> card" where
  "card_after ex ev st c =
     (if tagged c then c
      else (case ev (ex c) st of Inr (Some f) \<Rightarrow> hideVideoElement c (reason f) | _ \<Rightarrow> c))"

text \<open>One pass with the extractor \<open>ex\<close> and the orchestrator \<open>ev\<close>, and the part of the
  pass variables that the result of a run is made of.\<close>

definition run_pass ::
    "(card \<Rightarrow> videoData) \<Rightarrow> (videoData \<Rightarrow> settings \<Rightarrow> exn + decision option) \<Rightarrow> settings
      \<Rightarrow> page \<Rightarrow> run" where
  "run_pass ex ev st p =
     finish_run p (scan_cards (process_card ex ev st) (videoCards p) scan_init)"

definition core :: "scan_state \<Rightarrow> stats \<times> bool \<times> (string \<times> details option) list" where
  "core s = (currentStats s, newFilters s, store_calls s)"

text \<open>What the callback does to the statistics for one card filtered with the reason key
  \<open>k\<close>: \<open>currentStats[k]++; currentStats.total++\<close>.\<close>

definition bump :: "stats \<Rightarrow> string \<Rightarrow> stats" where
  "bump a k = stats_incr (stats_incr a k) ''total''"

definition newly_filtered :: "card list \<Rightarrow> card list \<Rightarrow> card list" where
  "newly_filtered before after =
     map snd (filter (\<lambda>(b, a). \<not> tagged b \<and> tagged a) (zip before after))"

definition count_reason :: "string \<Rightarrow> card list \<Rightarrow> nat" where
  "count_reason r cs = length (filter (\<lambda>c. data_filter_reason c = Some r) cs)"

section \<open>The storage round trips of the history log\<close>

text \<open>
  \<open>chrome.storage.local\<close> is asynchronous: \<open>get\<close> and \<open>set\<close> file a request and return,
  and the requests are served afterwards in the order in which they were filed; the
  callback of a \<open>get\<close> runs when its request is served.  A request is the \<open>get\<close> of
  one call \<open>storeFilteredVideo(ttl, rsn)\<close> (\<open>addFilteredVideo\<close> in the engine), with
  the two arguments its callback closes over, or the \<open>set\<close> that a callback has filed,
  with the list to write.
\<close>

datatype request =
    StorageGet string "details option"
  | StorageSet "history_entry list"

fun request_weight :: "request \<Rightarrow> nat" where
  "request_weight (StorageGet _ _) = 2"
| "request_weight (StorageSet _) = 1"

text \<open>
  \<open>serve clock pending n videos\<close> serves the pending requests on the stored value
  \<open>videos\<close> of the key \<open>filteredVideos\<close>.  Serving a \<open>get\<close> runs its callback on the
  value stored at that moment; the callback reads the clock (\<open>clock n\<close> for the
  callback number \<open>n\<close>) and files its \<open>set\<close> behind the requests that are pending.
\<close>

function serve ::
    "(nat \<Rightarrow> string) \<Rightarrow> request list \<Rightarrow> nat \<Rightarrow> history_entry list option
      \<Rightarrow> history_entry list option" where
  "serve clock [] n videos = videos"
| "serve clock (StorageGet ttl rsn # pending) n videos =
     serve clock (pending @ [StorageSet (storeFilteredVideo (clock n) videos ttl rsn)])
       (Suc n) videos"
| "serve clock (StorageSet vs # pending) n videos = serve clock pending n (Some vs)"
  by pat_completeness auto

termination
  by (relation "measure (\<lambda>(clock, pending, n, videos). sum_list (map request_weight pending))")
    auto

text \<open>
  The log after a pass.  A pass runs without suspension (\<open>forEach\<close> is synchronous and no
  callback runs before the script returns), so all its calls have filed their \<open>get\<close> when
  the first request is served.
\<close>

definition history_after ::
    "(nat \<Rightarrow> string) \<Rightarrow> history_entry list option \<Rightarrow> (string \<times> details option) list
      \<Rightarrow> history_entry list option" where
  "history_after clock videos calls =
     serve clock (map (\<lambda>(ttl, rsn). StorageGet ttl rsn) calls) 0 videos"

text \<open>
  What the log would be if every call found the list the call before it has written (as
  with a store that runs the callback inside the call, or with calls that are awaited one
  by one): each entry appended in turn.
\<close>

fun appended_in_turn ::
    "(nat \<Rightarrow> string) \<Rightarrow> nat \<Rightarrow> history_entry list option \<Rightarrow> (string \<times> details option) list
      \<Rightarrow> history_entry list option" where
  "appended_in_turn clock n videos [] = videos"
| "appended_in_turn clock n videos ((ttl, rsn) # calls) =
     appended_in_turn clock (Suc n) (Some (storeFilteredVideo (clock n) videos ttl rsn)) calls"

text \<open>The call a pass makes for a card it filters: the title of the card (or
  \<open>Unknown title\<close>) and the details of its decision.\<close>

definition history_call ::
    "(card \<Rightarrow> videoData) \<Rightarrow> (videoData \<Rightarrow> settings \<Rightarrow> exn + decision option) \<Rightarrow> settings
      \<Rightarrow> card \<Rightarrow> string \<times> details option" where
  "history_call ex ev st c =
     (if str_falsy (title (ex c)) then ''Unknown title'' else key_of (title (ex c)),
      case ev (ex c) st of Inr (Some f) \<Rightarrow> details f | _ \<Rightarrow> None)"

section \<open>Settings validation (settings-manager.js)\<close>

text \<open>
  A value of the language, as far as \<open>validateAndSanitizeSettings\<close> tells values apart,
  and the raw settings object as the function from a key to its value (\<open>undefined\<close> for a
  key it does not have).
\<close>

datatype jsval =
    JUndef | JNul | JBool bool | JNum jsnum | JString string | JArray "jsval list" | JObject

fun truthy :: "jsval \<Rightarrow> bool" where
  "truthy JUndef = False"
| "truthy JNul = False"
| "truthy (JBool b) = b"
| "truthy (JNum n) = num_truthy n"
| "truthy (JString s) = (s \<noteq> [])"
| "truthy (JArray xs) = True"
| "truthy JObject = True"

record sanitized =
  s_viewsFilterEnabled :: bool
  s_durationFilterEnabled :: bool
  s_keywordFilterEnabled :: bool
  s_ageFilterEnabled :: bool
  s_minViews :: jsnum
  s_minDuration :: jsnum
  s_maxDuration :: jsnum
  s_maxAge :: jsval
  s_bannedKeywords :: jsval

text \<open>\<open>{ ...DEFAULT_FILTER_SETTINGS }\<close>\<close>

definition default_sanitized :: sanitized where
  "default_sanitized =
     \<lparr>s_viewsFilterEnabled = True, s_durationFilterEnabled = True, s_keywordFilterEnabled = True,
      s_ageFilterEnabled = True, s_minViews = Fin 10000, s_minDuration = Fin 60,
      s_maxDuration = Fin 3600, s_maxAge = JNum (Fin 5),
      s_bannedKeywords = JArray [JString ''spoiler'', JString ''clickbait'', JString ''sponsor'']\<rparr>"

text \<open>\<open>typeof x === 'boolean' ? x : d\<close> and the numeric field with its lower bound.\<close>

fun bool_or :: "jsval \<Rightarrow> bool \<Rightarrow> bool" where
  "bool_or (JBool b) d = b"
| "bool_or _ d = d"

fun floor_or :: "jsval \<Rightarrow> jsnum \<Rightarrow> jsnum" where
  "floor_or (JNum n) d = (if js_ge n (Fin 0) then math_floor n else d)"
| "floor_or _ d = d"

fun maxAge_or :: "jsval \<Rightarrow> jsval \<Rightarrow> jsval" where
  "maxAge_or (JNum n) d = (if js_ge n (Fin 0) \<and> js_le n (Fin 20) then JNum (math_floor n) else d)"
| "maxAge_or _ d = d"

text \<open>The filter and the map over \<open>bannedKeywords\<close>.\<close>

fun keeps_keyword :: "jsval \<Rightarrow> bool" where
  "keeps_keyword (JString k) = (length (trim k) > 0)"
| "keeps_keyword _ = False"

fun clean_keyword :: "jsval \<Rightarrow> jsval" where
  "clean_keyword (JString k) = JString (toLowerCase (trim k))"
| "clean_keyword v = v"

fun keywords_or :: "jsval \<Rightarrow> jsval \<Rightarrow> jsval" where
  "keywords_or (JArray ks) d = JArray (map clean_keyword (filter keeps_keyword ks))"
| "keywords_or _ d = d"

definition validateAndSanitizeSettings :: "(string \<Rightarrow> jsval) \<Rightarrow> sanitized" where
  "validateAndSanitizeSettings raw =
     (let validated = default_sanitized;
          validated = validated
            \<lparr>s_viewsFilterEnabled := bool_or (raw ''viewsFilterEnabled'') (s_viewsFilterEnabled validated),
             s_durationFilterEnabled :=
               bool_or (raw ''durationFilterEnabled'') (s_durationFilterEnabled validated),
             s_keywordFilterEnabled :=
               bool_or (raw ''keywordFilterEnabled'') (s_keywordFilterEnabled validated),
             s_ageFilterEnabled := bool_or (raw ''ageFilterEnabled'') (s_ageFilterEnabled validated)\<rparr>;
          validated = validated\<lparr>s_minViews := floor_or (raw ''minViews'') (s_minViews validated)\<rparr>;
          validated = validated
            \<lparr>s_minDuration := floor_or (raw ''minDuration'') (s_minDuration validated)\<rparr>;
          validated = validated
            \<lparr>s_maxDuration := floor_or (raw ''maxDuration'') (s_maxDuration validated)\<rparr>;
          validated = validated\<lparr>s_maxAge := maxAge_or (raw ''maxAge'') (s_maxAge validated)\<rparr>;
          validated = validated
            \<lparr>s_bannedKeywords := keywords_or (raw ''bannedKeywords'') (s_bannedKeywords validated)\<rparr>;
          validated =
            (if truthy (raw ''maxAgeYears'') \<and> \<not> truthy (raw ''maxAge'')
             then validated\<lparr>s_maxAge := raw ''maxAgeYears''\<rparr> else validated);
          validated =
            (if truthy (raw ''keywords'') \<and> \<not> truthy (raw ''bannedKeywords'')
             then validated\<lparr>s_bannedKeywords := raw ''keywords''\<rparr> else validated)
      in validated)"

text \<open>What the claim about the result says of a field: a non-negative integer, and a
  list of non-empty, trimmed, lower-case strings.\<close>

fun is_nonneg_int :: "jsnum \<Rightarrow> bool" where
  "is_nonneg_int (Fin x) = (0 \<le> x \<and> of_int \<lfloor>x\<rfloor> = x)"
| "is_nonneg_int _ = False"

fun clean_string :: "jsval \<Rightarrow> bool" where
  "clean_string (JString k) = (k \<noteq> [] \<and> trim k = k \<and> toLowerCase k = k)"
| "clean_string _ = False"

section \<open>Concrete inputs\<close>

text \<open>The record \<open>extractVideoData\<close> starts from: every field \<open>null\<close>.\<close>

definition empty_data :: videoData where
  "empty_data = \<lparr>title = None, viewCount = None, duration = None, publishTime = None, videoId = None\<rparr>"

text \<open>\<open>DEFAULT_FILTER_SETTINGS\<close> of settings-manager.js; it has no key \<open>keywordsFilterEnabled\<close>.\<close>

definition DEFAULT_FILTER_SETTINGS :: settings where
  "DEFAULT_FILTER_SETTINGS =
     \<lparr>viewsFilterEnabled = True, durationFilterEnabled = True, ageFilterEnabled = True,
      keywordsFilterEnabled = False, keywordFilterEnabled = True,
      minViews = Fin 10000, minDuration = Fin 60, maxDuration = Fin 3600, maxAge = Fin 5,
      bannedKeywords = Some [''spoiler'', ''clickbait'', ''sponsor'']\<rparr>"

text \<open>A record with a banned word in its title and no view count, and the default settings
  with the keyword flag of content.js set as well.\<close>

definition spoiler_without_count :: videoData where
  "spoiler_without_count = empty_data\<lparr>title := Some ''Ending SPOILER Discussion''\<rparr>"

definition both_enabled :: settings where
  "both_enabled = DEFAULT_FILTER_SETTINGS\<lparr>keywordsFilterEnabled := True\<rparr>"

text \<open>A card that shows no view count but the words \<open>No views\<close>.\<close>

definition no_views_card :: card where
  "no_views_card =
     \<lparr>querySelector = (\<lambda>_. None), innerText = Some ''Premiere No views 3 days ago'',
      data_filtered = None, data_filter_reason = None, style_display = []\<rparr>"

text \<open>A card with no content, the same card already tagged by an earlier pass, and a page
  with both.\<close>

definition blank_card :: card where
  "blank_card =
     \<lparr>querySelector = (\<lambda>_. None), innerText = None, data_filtered = None,
      data_filter_reason = None, style_display = []\<rparr>"

definition two_cards :: page where
  "two_cards =
     \<lparr>videoCards = [hideVideoElement blank_card (Some ''views''), blank_card],
      filterStats = zero_stats, saved_filterStats = None\<rparr>"

text \<open>A card whose title holds a banned word, settings with the keyword filter alone
  (under both names of its flag), and the page with that card.\<close>

definition spoiler_card :: card where
  "spoiler_card =
     \<lparr>querySelector = (\<lambda>sel. if sel = ''#video-title''
                             then Some \<lparr>textContent = Some ''Ending SPOILER Discussion'',
                                        attr_title = None, attr_aria_label = None,
                                        attr_data_video_id = None, el_innerText = None\<rparr>
                             else None),
      innerText = None, data_filtered = None, data_filter_reason = None, style_display = []\<rparr>"

definition keyword_only :: settings where
  "keyword_only =
     \<lparr>viewsFilterEnabled = False, durationFilterEnabled = False, ageFilterEnabled = False,
      keywordsFilterEnabled = True, keywordFilterEnabled = True,
      minViews = Fin 0, minDuration = Fin 0, maxDuration = Fin 0, maxAge = Fin 0,
      bannedKeywords = Some [''spoiler'']\<rparr>"

definition spoiler_page :: page where
  "spoiler_page = \<lparr>videoCards = [spoiler_card], filterStats = zero_stats, saved_filterStats = None\<rparr>"

text \<open>Settings objects in the legacy format of setting.js (keys \<open>maxAgeYears\<close> and
  \<open>keywords\<close>), and one with an infinite bound.\<close>

definition legacy_settings :: "string \<Rightarrow> jsval" where
  "legacy_settings k =
     (if k = ''maxAgeYears'' then JNum (Fin 100)
      else if k = ''keywords'' then JArray [JString ''  Spoiler '', JString []]
      else JUndef)"

definition infinite_settings :: "string \<Rightarrow> jsval" where
  "infinite_settings k = (if k = ''minViews'' then JNum PInf else JUndef)"

text \<open>A second card whose title holds the banned word, and the page with both cards.\<close>

definition spoiler_card2 :: card where
  "spoiler_card2 =
     \<lparr>querySelector = (\<lambda>sel. if sel = ''#video-title''
                             then Some \<lparr>textContent = Some ''Spoiler review'',
                                        attr_title = None, attr_aria_label = None,
                                        attr_data_video_id = None, el_innerText = None\<rparr>
                             else None),
      innerText = None, data_filtered = None, data_filter_reason = None, style_display = []\<rparr>"

definition two_spoilers :: page where
  "two_spoilers =
     \<lparr>videoCards = [spoiler_card, spoiler_card2], filterStats = zero_stats,
      saved_filterStats = None\<rparr>"

section \<open>The predicates return (helper facts)\<close>

lemma parseDuration_returns: "\<exists>n. parseDuration t = Inr n"
  by (cases t) (simp_all add: parseDuration_def Let_def)

lemma parseVideoAge_returns: "\<exists>n. parseVideoAge t = Inr n"
  by (cases t) (simp_all add: parseVideoAge_def split: option.splits)

lemma checkDurationFilter_returns: "\<exists>d. checkDurationFilter vd st = Inr d"
  using parseDuration_returns [of "JStr (the (duration vd))"]
  by (auto simp: checkDurationFilter_def Let_def split: option.splits)

lemma checkAgeFilter_returns: "\<exists>d. checkAgeFilter vd st = Inr d"
  using parseVideoAge_returns [of "JStr (the (publishTime vd))"]
  by (auto simp: checkAgeFilter_def split: option.splits)

lemma keywords_body_returns: "\<exists>d. keywords_body b vd st = Inr d"
  by (simp add: keywords_body_def split: option.splits)

lemma checkKeywordsFilter_returns: "\<exists>d. checkKeywordsFilter vd st = Inr d"
  by (simp add: checkKeywordsFilter_def keywords_body_returns)

lemma checkViewsFilter_reason:
  assumes "checkViewsFilter vd st = Inr f" and "shouldFilter f"
  shows "reason f = Some ''views'' \<or> reason f = Some ''no-views''"
  using assms
  by (auto simp: checkViewsFilter_def filtered_def no_filter_def
      split: if_splits option.splits sum.splits)

lemma mod_checkViewsFilter_reason:
  assumes "mod_checkViewsFilter vd st = Inr f" and "shouldFilter f"
  shows "reason f = Some ''views''"
  using assms
  by (auto simp: mod_checkViewsFilter_def filtered_def no_filter_def
      split: if_splits option.splits sum.splits)

section \<open>Missing data (C2)\<close>

text \<open>
  C2, as amended.  With the views filter enabled and \<open>minViews = 10000\<close>, a record whose
  view count is \<open>null\<close> is filtered: \<open>checkViewsFilter\<close> of content.js gives the reason
  \<open>no-views\<close>, \<open>checkViewsFilter\<close> of the filter-functions module gives the reason
  \<open>views\<close>.  With the duration filter enabled, whatever the bounds, a record whose
  duration is \<open>null\<close> is not filtered.
\<close>

theorem missing_data_asymmetry:
  assumes "viewCount vd = None" and "viewsFilterEnabled st" and "minViews st = Fin 10000"
    and "duration vd' = None" and "durationFilterEnabled st'"
  shows "checkViewsFilter vd st = Inr (filtered ''no-views'' NoViewCount)
       \<and> mod_checkViewsFilter vd st = Inr (filtered ''views'' NoViewCount)
       \<and> checkDurationFilter vd' st' = Inr no_filter
       \<and> \<not> shouldFilter no_filter \<and> shouldFilter (filtered ''no-views'' NoViewCount)"
  using assms
  by (simp add: checkViewsFilter_def mod_checkViewsFilter_def checkDurationFilter_def
      no_filter_def filtered_def)

theorem missing_data_asymmetry_witness:
  "checkViewsFilter empty_data DEFAULT_FILTER_SETTINGS = Inr (filtered ''no-views'' NoViewCount)
   \<and> mod_checkViewsFilter empty_data DEFAULT_FILTER_SETTINGS = Inr (filtered ''views'' NoViewCount)
   \<and> checkDurationFilter empty_data DEFAULT_FILTER_SETTINGS = Inr no_filter"
  using missing_data_asymmetry [of empty_data DEFAULT_FILTER_SETTINGS empty_data DEFAULT_FILTER_SETTINGS]
  by (simp add: empty_data_def DEFAULT_FILTER_SETTINGS_def)

text \<open>
  C2 as stated fails on the module: for a record without a view count its
  \<open>checkViewsFilter\<close> reports the reason \<open>views\<close>, not \<open>no-views\<close>.
\<close>

theorem module_no_views_reason:
  "mod_checkViewsFilter empty_data DEFAULT_FILTER_SETTINGS
     = Inr \<lparr>shouldFilter = True, reason = Some ''views'', details = Some NoViewCount\<rparr>
   \<and> Some ''views'' \<noteq> Some ''no-views''"
  by (simp add: mod_checkViewsFilter_def empty_data_def DEFAULT_FILTER_SETTINGS_def filtered_def)


section \<open>First match wins (C4)\<close>

text \<open>
  C4, as amended.  Both orchestrators take the first result with \<open>shouldFilter\<close> in the
  order views, duration, age, keyword, and no decision when all decline.  When the views
  predicate filters, its decision is the one returned whatever the keyword predicate says,
  so the reason is never \<open>keyword\<close>: in content.js it is \<open>views\<close> or \<open>no-views\<close> (a record
  without a view count), in the module it is \<open>views\<close>.
\<close>

theorem first_match_wins:
  assumes "checkViewsFilter vd st = Inr f1" and "checkDurationFilter vd st = Inr f2"
    and "checkAgeFilter vd st = Inr f3" and "checkKeywordsFilter vd st = Inr f4"
    and "mod_checkViewsFilter vd st = Inr g1" and "mod_checkKeywordsFilter vd st = Inr g4"
  shows "triggeredFilter vd st = Inr (find shouldFilter [f1, f2, f3, f4])
       \<and> applyAllFilters vd st = Inr (find shouldFilter [g1, f2, f3, g4])
       \<and> (shouldFilter f1 \<longrightarrow>
            triggeredFilter vd st = Inr (Some f1)
            \<and> (reason f1 = Some ''views'' \<or> reason f1 = Some ''no-views'')
            \<and> reason f1 \<noteq> Some ''keyword'')
       \<and> (shouldFilter g1 \<longrightarrow>
            applyAllFilters vd st = Inr (Some g1) \<and> reason g1 = Some ''views'')"
proof -
  have t: "triggeredFilter vd st = Inr (find shouldFilter [f1, f2, f3, f4])"
    using assms by (simp add: triggeredFilter_def)
  have a: "applyAllFilters vd st = Inr (find shouldFilter [g1, f2, f3, g4])"
    using assms
    by (simp add: applyAllFilters_def getAllFilterFunctions_def checkChannelFilter_def
        no_filter_def)
  have r1: "shouldFilter f1 \<Longrightarrow> reason f1 = Some ''views'' \<or> reason f1 = Some ''no-views''"
    using assms(1) by (rule checkViewsFilter_reason)
  have r2: "shouldFilter g1 \<Longrightarrow> reason g1 = Some ''views''"
    using assms(5) by (rule mod_checkViewsFilter_reason)
  show ?thesis
    using t a r1 r2 by auto
qed

lemma kw_eval:
  "keyword_loop (toLowerCase ''Ending SPOILER Discussion'') [''spoiler'', ''clickbait'', ''sponsor'']
     = filtered ''keyword'' (BannedKeyword ''spoiler'')"
  by code_simp

theorem first_match_wins_witness:
  "triggeredFilter spoiler_without_count both_enabled = Inr (Some (filtered ''no-views'' NoViewCount))
   \<and> applyAllFilters spoiler_without_count both_enabled = Inr (Some (filtered ''views'' NoViewCount))"
proof -
  have f1: "checkViewsFilter spoiler_without_count both_enabled = Inr (filtered ''no-views'' NoViewCount)"
    by (simp add: checkViewsFilter_def spoiler_without_count_def both_enabled_def
        empty_data_def DEFAULT_FILTER_SETTINGS_def)
  have g1: "mod_checkViewsFilter spoiler_without_count both_enabled = Inr (filtered ''views'' NoViewCount)"
    by (simp add: mod_checkViewsFilter_def spoiler_without_count_def both_enabled_def
        empty_data_def DEFAULT_FILTER_SETTINGS_def)
  have f2: "checkDurationFilter spoiler_without_count both_enabled = Inr no_filter"
    by (simp add: checkDurationFilter_def spoiler_without_count_def both_enabled_def
        empty_data_def DEFAULT_FILTER_SETTINGS_def)
  have f3: "checkAgeFilter spoiler_without_count both_enabled = Inr no_filter"
    by (simp add: checkAgeFilter_def spoiler_without_count_def both_enabled_def
        empty_data_def DEFAULT_FILTER_SETTINGS_def)
  have f4: "checkKeywordsFilter spoiler_without_count both_enabled
      = Inr (filtered ''keyword'' (BannedKeyword ''spoiler''))"
    using kw_eval
    by (simp add: checkKeywordsFilter_def keywords_body_def spoiler_without_count_def
        both_enabled_def empty_data_def DEFAULT_FILTER_SETTINGS_def)
  have g4: "mod_checkKeywordsFilter spoiler_without_count both_enabled
      = Inr (filtered ''keyword'' (BannedKeyword ''spoiler''))"
    using kw_eval
    by (simp add: mod_checkKeywordsFilter_def keywords_body_def spoiler_without_count_def
        both_enabled_def empty_data_def DEFAULT_FILTER_SETTINGS_def)
  show ?thesis
    using first_match_wins [OF f1 f2 f3 f4 g1 g4]
    by (simp add: filtered_def)
qed

text \<open>
  C4 as stated fails in content.js: a record with a banned word in its title and no view
  count fails both predicates, and the reason returned is \<open>no-views\<close>, not \<open>views\<close>.
\<close>

theorem no_views_beats_keyword:
  "checkKeywordsFilter spoiler_without_count both_enabled
     = Inr (filtered ''keyword'' (BannedKeyword ''spoiler''))
   \<and> triggeredFilter spoiler_without_count both_enabled
     = Inr (Some \<lparr>shouldFilter = True, reason = Some ''no-views'', details = Some NoViewCount\<rparr>)
   \<and> Some ''no-views'' \<noteq> Some ''views''"
  using kw_eval
  by (simp add: triggeredFilter_def checkViewsFilter_def checkDurationFilter_def checkAgeFilter_def
      checkKeywordsFilter_def keywords_body_def spoiler_without_count_def both_enabled_def
      empty_data_def DEFAULT_FILTER_SETTINGS_def filtered_def no_filter_def)

section \<open>Rounding (helper facts)\<close>

text \<open>Rules to evaluate \<open>fl\<close> on numerals.\<close>

lemma bit_length_0: "bit_length 0 = 0"
  by (simp add: bit_length.simps)

lemma bit_length_Suc0: "bit_length (Suc 0) = Suc 0"
  by (simp add: bit_length.simps)

lemma bit_length_numeral: "bit_length (numeral k) = Suc (bit_length (numeral k div 2))"
  by (subst bit_length.simps) simp

lemma floor_rat_numeral: "\<lfloor>(numeral a :: rat) / numeral b\<rfloor> = numeral a div numeral b"
  by (metis floor_divide_of_int_eq of_int_numeral)

lemma ceiling_rat_numeral:
  "\<lceil>(numeral a :: rat) / numeral b\<rceil> = - (- numeral a div numeral b)"
  by (metis ceiling_def floor_divide_of_int_eq minus_divide_left of_int_minus of_int_numeral)

lemmas fl_eval = fl_def fl_pos_def ilog2_def bit_length_0 bit_length_Suc0 bit_length_numeral
  pow2_def round_even_def Let_def floor_rat_numeral ceiling_rat_numeral

lemmas str_eval = trim_def trimStart_def is_ws_def ws_chars_def digit_chars_def is_digit_def
  remove_commas_def replace_first_def re_exec_def lit_ci_def
  Opt_def Plus_def toLowerCase_chr_def toUpperCase_chr_def toUpperCase_def toLowerCase_def
  m_group_def parseFloat_def parse_sign_def unsigned_decimal_def exp_part_def pow10_def
  dec_val_def digit_val_def parseInt10_def

text \<open>A natural number below \<open>2 ^ 53\<close> is a double: \<open>fl\<close> leaves it as it is.\<close>

lemma bit_length_le: "n < 2 ^ k \<Longrightarrow> bit_length n \<le> k"
proof (induction k arbitrary: n)
  case 0
  then show ?case by (simp add: bit_length.simps)
next
  case (Suc k)
  show ?case
  proof (cases "n = 0")
    case True
    then show ?thesis by (simp add: bit_length.simps)
  next
    case False
    from Suc.prems have "n div 2 < 2 ^ k" by simp
    then have "bit_length (n div 2) \<le> k" by (rule Suc.IH)
    with False show ?thesis by (subst bit_length.simps) simp
  qed
qed

lemma bit_length_pos: "0 < n \<Longrightarrow> 0 < bit_length n"
  by (subst bit_length.simps) simp

lemma round_even_of_int: "round_even (of_int k) = k"
  by (simp add: round_even_def)

lemma pow2_nonpos: "q \<le> 0 \<Longrightarrow> pow2 q = 1 / 2 ^ nat (- q)"
  by (cases "q = 0") (simp_all add: pow2_def)

lemma ilog2_of_nat: "0 < n \<Longrightarrow> ilog2 (of_nat n) = int (bit_length n) - 1"
  by (simp add: ilog2_def)

lemma fl_pos_nat_exact:
  assumes "0 < n" and "n < 2 ^ 53"
  shows "fl_pos (of_nat n) = Fin (of_nat n)"
proof -
  define q where "q = ilog2 (of_nat n) - 52"
  define d where "d = nat (- q)"
  have e: "ilog2 (of_nat n) = int (bit_length n) - 1" using assms(1) by (rule ilog2_of_nat)
  have lo: "0 \<le> ilog2 (of_nat n)" using bit_length_pos [OF assms(1)] e by simp
  have hi: "ilog2 (of_nat n) \<le> 52" using bit_length_le [OF assms(2)] e by simp
  have m: "max (ilog2 (of_nat n) - 52) (- 1074) = q" using lo by (simp add: q_def)
  have qn: "q \<le> 0" using hi by (simp add: q_def)
  have p: "pow2 q = 1 / 2 ^ d" using qn by (simp add: pow2_nonpos d_def)
  have "(of_nat n :: rat) / pow2 q = of_int (int n * 2 ^ d)"
    by (simp add: p)
  then have r: "round_even (of_nat n / pow2 q) = int n * 2 ^ d"
    by (simp only: round_even_of_int)
  have y: "of_int (int n * 2 ^ d) * pow2 q = (of_nat n :: rat)"
    by (simp add: p)
  have big: "\<not> 1024 \<le> ilog2 (of_nat n)" using hi by simp
  show ?thesis
    unfolding fl_pos_def Let_def m r y using big by simp
qed

lemma fl_nat_exact: "n < 2 ^ 53 \<Longrightarrow> fl (of_nat n) = Fin (of_nat n)"
  by (cases "n = 0") (simp_all add: fl_def fl_pos_nat_exact)

lemma fl_pos_not_NaN: "fl_pos x \<noteq> NaN"
  by (simp add: fl_pos_def Let_def)

lemma fl_not_NaN: "fl x \<noteq> NaN"
proof -
  have "js_neg (fl_pos (- x)) \<noteq> NaN"
    using fl_pos_not_NaN [of "- x"] by (cases "fl_pos (- x)") simp_all
  then show ?thesis by (simp add: fl_def fl_pos_not_NaN)
qed

section \<open>The parsers are total (C8)\<close>

text \<open>A match of the view-count pattern always has its second group, so
  \<open>match[2].toUpperCase()\<close> never fails.\<close>

lemma re_exec_from_caps:
  "re_exec_from r pre s = Some m \<Longrightarrow> \<exists>s' rest. (rest, m_caps m) \<in> set (bt r (s', []))"
proof (induction r pre s rule: re_exec_from.induct)
  case (1 r pre s)
  show ?case
  proof (cases "bt r (s, [])")
    case Nil
    show ?thesis
    proof (cases s)
      case Nil
      with \<open>bt r (s, []) = []\<close> "1.prems" show ?thesis by simp
    next
      case (Cons x xs)
      with \<open>bt r (s, []) = []\<close> "1.prems" have "re_exec_from r (pre @ [x]) xs = Some m"
        by simp
      with "1.IH" [OF \<open>bt r (s, []) = []\<close> Cons] show ?thesis by simp
    qed
  next
    case (Cons a list)
    obtain rest c where a: "a = (rest, c)" by (cases a)
    with Cons "1.prems" have "m_caps m = c" by auto
    with Cons a have "(rest, m_caps m) \<in> set (bt r (s, []))" by simp
    then show ?thesis by blast
  qed
qed

lemma bt_Seq_snd: "x \<in> set (bt (Seq a b) st) \<Longrightarrow> \<exists>st'. x \<in> set (bt b st')"
  by auto

lemma bt_Grp_caps: "(s', c') \<in> set (bt (Grp i r) st) \<Longrightarrow> map_of c' i \<noteq> None"
  by (cases st) auto

lemma count_re_group2:
  assumes "re_exec count_re s = Some m"
  shows "\<exists>g. m_group m 2 = Some g"
proof -
  from assms obtain s' rest where "(rest, m_caps m) \<in> set (bt count_re (s', []))"
    unfolding re_exec_def by (blast dest: re_exec_from_caps)
  then obtain st' where
    "(rest, m_caps m) \<in> set (bt (Seq (StarC ws_chars) (Grp 2 (Opt (Cls ''KMBkmb'')))) st')"
    unfolding count_re_def by (blast dest: bt_Seq_snd)
  then obtain st'' where "(rest, m_caps m) \<in> set (bt (Grp 2 (Opt (Cls ''KMBkmb''))) st'')"
    by (blast dest: bt_Seq_snd)
  then have "map_of (m_caps m) 2 \<noteq> None" by (rule bt_Grp_caps)
  then show ?thesis by (auto simp: m_group_def)
qed

lemma parseViewCount_returns: "\<exists>n. parseViewCount t = Inr n"
proof (cases t)
  case (JStr s)
  show ?thesis
  proof (cases "re_exec count_re (trim (remove_commas (replace_first views_word_re s)))")
    case None
    with JStr show ?thesis by (simp add: parseViewCount_def Let_def)
  next
    case (Some m)
    from count_re_group2 [OF Some] obtain g where "m_group m 2 = Some g" ..
    with JStr Some show ?thesis by (simp add: parseViewCount_def Let_def)
  qed
qed (simp_all add: parseViewCount_def)

text \<open>
  C8.  For every argument that is a string, \<open>null\<close> or \<open>undefined\<close>, each of
  \<open>parseViewCount\<close>, \<open>parseDuration\<close> and \<open>parseVideoAge\<close> returns a number (which may be
  NaN or an infinity, numbers of the language) and raises nothing.
\<close>

theorem parsers_total:
  "(\<exists>n. parseViewCount t = Inr n) \<and> (\<exists>n. parseDuration t = Inr n)
   \<and> (\<exists>n. parseVideoAge t = Inr n)"
  by (simp add: parseViewCount_returns parseDuration_returns parseVideoAge_returns)

theorem parsers_total_witness:
  "(\<exists>n. parseViewCount (JStr ''12:05 PM'') = Inr n)
   \<and> (\<exists>n. parseDuration (JStr ''12:05 PM'') = Inr n)
   \<and> (\<exists>n. parseVideoAge (JStr ''12:05 PM'') = Inr n)"
  using parsers_total [of "JStr ''12:05 PM''"] by simp

section \<open>\<open>parseViewCount\<close> (C5)\<close>

text \<open>The four examples of the claim hold.\<close>

lemma cleaned_1_4K: "trim (remove_commas (replace_first views_word_re ''1.4K views'')) = ''1.4K''"
  by code_simp

lemma match_1_4K:
  "re_exec count_re ''1.4K''
     = Some \<lparr>m_pre = [], m_all = ''1.4K'', m_post = [], m_caps = [(2, ''K''), (1, ''1.4'')]\<rparr>"
  by code_simp

lemma parseFloat_1_4: "parseFloat ''1.4'' = fl (7 / 5)"
  by (simp add: str_eval)

lemma parseViewCount_1_4K: "parseViewCount (JStr ''1.4K views'') = Inr (Fin 1400)"
  by (simp add: parseViewCount_def cleaned_1_4K match_1_4K parseFloat_1_4 m_group_def
      toUpperCase_def toUpperCase_chr_def fl_eval)

lemma cleaned_2_3M: "trim (remove_commas (replace_first views_word_re ''2.3M'')) = ''2.3M''"
  by code_simp

lemma match_2_3M:
  "re_exec count_re ''2.3M''
     = Some \<lparr>m_pre = [], m_all = ''2.3M'', m_post = [], m_caps = [(2, ''M''), (1, ''2.3'')]\<rparr>"
  by code_simp

lemma parseFloat_2_3: "parseFloat ''2.3'' = fl (23 / 10)"
  by (simp add: str_eval)

lemma parseViewCount_2_3M: "parseViewCount (JStr ''2.3M'') = Inr (Fin 2300000)"
  by (simp add: parseViewCount_def cleaned_2_3M match_2_3M parseFloat_2_3 m_group_def
      toUpperCase_def toUpperCase_chr_def fl_eval)

lemma parseViewCount_empty: "parseViewCount (JStr []) = Inr (Fin 0)"
  by (simp add: parseViewCount_def)

lemma cleaned_No_views: "trim (remove_commas (replace_first views_word_re ''No views'')) = ''No''"
  by code_simp

lemma match_No: "re_exec count_re ''No'' = None"
  by code_simp

lemma parseFloat_No: "parseFloat ''No'' = NaN"
  by (simp add: str_eval)

lemma parseViewCount_No_views: "parseViewCount (JStr ''No views'') = Inr (Fin 0)"
  by (simp add: parseViewCount_def cleaned_No_views match_No parseFloat_No)

text \<open>
  C5.  The claim is that unparseable input gives 0.  The pattern \<open>[\d\.]+\<close> also matches a
  run of dots, which \<open>parseFloat\<close> cannot read: on the text \<open>.\<close> the result is NaN, not 0.
\<close>

theorem parseViewCount_dot: "parseViewCount (JStr ''.'') = Inr NaN"
  by code_simp

section \<open>\<open>parseDuration\<close> on texts with a colon (C6)\<close>

lemma digit_not_ws: "is_digit c \<Longrightarrow> \<not> is_ws c"
  by (auto simp: is_digit_def is_ws_def digit_chars_def ws_chars_def)

lemma digit_not_colon: "is_digit c \<Longrightarrow> c \<noteq> CHR '':''"
  by (auto simp: is_digit_def digit_chars_def)

lemma digit_not_sign: "is_digit c \<Longrightarrow> c \<noteq> CHR ''-'' \<and> c \<noteq> CHR ''+''"
  by (auto simp: is_digit_def digit_chars_def)

lemma colon_not_ws: "\<not> is_ws CHR '':''"
  by (simp add: is_ws_def ws_chars_def)

lemma dropWhile_hd_id: "s \<noteq> [] \<Longrightarrow> \<not> P (hd s) \<Longrightarrow> dropWhile P s = s"
  by (cases s) simp_all

lemma trim_id: "s \<noteq> [] \<Longrightarrow> \<not> is_ws (hd s) \<Longrightarrow> \<not> is_ws (last s) \<Longrightarrow> trim s = s"
  by (simp add: trim_def dropWhile_hd_id hd_rev)

lemma mem_dropWhile: "x \<in> set xs \<Longrightarrow> \<not> P x \<Longrightarrow> x \<in> set (dropWhile P xs)"
  by (induction xs) auto

lemma mem_trim: "c \<in> set s \<Longrightarrow> \<not> is_ws c \<Longrightarrow> c \<in> set (trim s)"
  by (simp add: trim_def mem_dropWhile)

lemma js_includes_mem: "c \<in> set s \<Longrightarrow> js_includes s [c]"
  by (induction s) auto

lemma split_on_no_sep: "c \<notin> set a \<Longrightarrow> split_on c a = [a]"
  by (induction a) auto

lemma split_on_append: "c \<notin> set a \<Longrightarrow> split_on c (a @ c # b) = a # split_on c b"
  by (induction a) auto

lemma is_digits_hd: "is_digits s \<Longrightarrow> is_digit (hd s)"
  by (cases s) (simp_all add: is_digits_def)

lemma is_digits_last: "is_digits s \<Longrightarrow> is_digit (last s)"
  by (auto simp: is_digits_def list_all_iff)

lemma is_digits_no_colon: "is_digits s \<Longrightarrow> CHR '':'' \<notin> set s"
  by (auto simp: is_digits_def list_all_iff dest: digit_not_colon)

lemma is_digits_trim: "is_digits s \<Longrightarrow> trim s = s"
proof (rule trim_id)
  assume d: "is_digits s"
  show "s \<noteq> []" using d by (simp add: is_digits_def)
  show "\<not> is_ws (hd s)" using is_digits_hd [OF d] by (rule digit_not_ws)
  show "\<not> is_ws (last s)" using is_digits_last [OF d] by (rule digit_not_ws)
qed

lemma parseInt10_digits:
  assumes "is_digits s"
  shows "parseInt10 s = fl (of_nat (dec_val s))"
proof -
  have ne: "s \<noteq> []" using assms by (simp add: is_digits_def)
  have t: "trimStart s = s"
    unfolding trimStart_def using ne digit_not_ws [OF is_digits_hd [OF assms]]
    by (rule dropWhile_hd_id)
  have p: "parse_sign s = (False, s)"
    using ne digit_not_sign [OF is_digits_hd [OF assms]]
    by (cases s) (simp_all add: parse_sign_def)
  have w: "takeWhile is_digit s = s" using assms by (simp add: is_digits_def list_all_iff)
  show ?thesis unfolding parseInt10_def t p using ne by (simp add: w)
qed

lemma parseInt10_no_integer:
  assumes "\<not> has_leading_integer s"
  shows "parseInt10 s = NaN"
proof -
  obtain neg r where pr: "parse_sign (trimStart s) = (neg, r)" by (cases "parse_sign (trimStart s)")
  with assms have "takeWhile is_digit r = []"
    by (cases r) (simp_all add: has_leading_integer_def)
  with pr show ?thesis by (simp add: parseInt10_def)
qed

lemma fl_nat_mul: "a * b < 2 ^ 53 \<Longrightarrow> fl (of_nat a * of_nat b) = Fin (of_nat a * of_nat b)"
  using fl_nat_exact [of "a * b"] by simp

lemma fl_nat_add: "a + b < 2 ^ 53 \<Longrightarrow> fl (of_nat a + of_nat b) = Fin (of_nat a + of_nat b)"
  using fl_nat_exact [of "a + b"] by simp

lemma parseDuration_mm_ss:
  assumes mm: "is_digits mm" and ss: "is_digits ss"
    and bound: "dec_val mm * 60 + dec_val ss < 2 ^ 53"
  shows "parseDuration (JStr (mm @ CHR '':'' # ss))
           = Inr (Fin (of_nat (dec_val mm * 60 + dec_val ss)))"
proof -
  let ?t = "mm @ CHR '':'' # ss"
  have hd: "hd ?t = hd mm" using mm by (simp add: is_digits_def)
  have la: "last ?t = last ss" using ss by (simp add: is_digits_def)
  have tr: "trim ?t = ?t"
  proof (rule trim_id)
    show "?t \<noteq> []" by simp
    show "\<not> is_ws (hd ?t)" unfolding hd using is_digits_hd [OF mm] by (rule digit_not_ws)
    show "\<not> is_ws (last ?t)" unfolding la using is_digits_last [OF ss] by (rule digit_not_ws)
  qed
  have inc: "js_includes ?t [CHR '':'']" by (rule js_includes_mem) simp
  have sp: "split_on CHR '':'' ?t = [mm, ss]"
    using split_on_append [OF is_digits_no_colon [OF mm], of ss]
      split_on_no_sep [OF is_digits_no_colon [OF ss]] by simp
  have b1: "dec_val mm < 2 ^ 53" and b2: "dec_val ss < 2 ^ 53" and b3: "dec_val mm * 60 < 2 ^ 53"
    using bound by simp_all
  have p1: "parseInt10 (trim mm) = Fin (of_nat (dec_val mm))"
    by (simp add: is_digits_trim [OF mm] parseInt10_digits [OF mm] fl_nat_exact [OF b1])
  have p2: "parseInt10 (trim ss) = Fin (of_nat (dec_val ss))"
    by (simp add: is_digits_trim [OF ss] parseInt10_digits [OF ss] fl_nat_exact [OF b2])
  have m: "fl (of_nat (dec_val mm) * 60) = Fin (of_nat (dec_val mm) * 60)"
    using fl_nat_mul [OF b3] by simp
  have a: "fl (of_nat (dec_val mm) * 60 + of_nat (dec_val ss))
      = Fin (of_nat (dec_val mm) * 60 + of_nat (dec_val ss))"
    using fl_nat_add [OF bound] by simp
  show ?thesis
    by (simp add: parseDuration_def Let_def tr inc sp p1 p2 m a)
qed

lemma parseDuration_hh_mm_ss:
  assumes hh: "is_digits hh" and mm: "is_digits mm" and ss: "is_digits ss"
    and bound: "dec_val hh * 3600 + dec_val mm * 60 + dec_val ss < 2 ^ 53"
  shows "parseDuration (JStr (hh @ CHR '':'' # mm @ CHR '':'' # ss))
           = Inr (Fin (of_nat (dec_val hh * 3600 + dec_val mm * 60 + dec_val ss)))"
proof -
  let ?t = "hh @ CHR '':'' # mm @ CHR '':'' # ss"
  have hd: "hd ?t = hd hh" using hh by (simp add: is_digits_def)
  have la: "last ?t = last ss" using ss by (simp add: is_digits_def)
  have tr: "trim ?t = ?t"
  proof (rule trim_id)
    show "?t \<noteq> []" by simp
    show "\<not> is_ws (hd ?t)" unfolding hd using is_digits_hd [OF hh] by (rule digit_not_ws)
    show "\<not> is_ws (last ?t)" unfolding la using is_digits_last [OF ss] by (rule digit_not_ws)
  qed
  have inc: "js_includes ?t [CHR '':'']" by (rule js_includes_mem) simp
  have sp: "split_on CHR '':'' ?t = [hh, mm, ss]"
    using split_on_append [OF is_digits_no_colon [OF hh], of "mm @ CHR '':'' # ss"]
      split_on_append [OF is_digits_no_colon [OF mm], of ss]
      split_on_no_sep [OF is_digits_no_colon [OF ss]] by simp
  have b0: "dec_val hh < 2 ^ 53" and b1: "dec_val mm < 2 ^ 53" and b2: "dec_val ss < 2 ^ 53"
    and b3: "dec_val hh * 3600 < 2 ^ 53" and b4: "dec_val mm * 60 < 2 ^ 53"
    and b5: "dec_val hh * 3600 + dec_val mm * 60 < 2 ^ 53"
    using bound by simp_all
  have p0: "parseInt10 (trim hh) = Fin (of_nat (dec_val hh))"
    by (simp add: is_digits_trim [OF hh] parseInt10_digits [OF hh] fl_nat_exact [OF b0])
  have p1: "parseInt10 (trim mm) = Fin (of_nat (dec_val mm))"
    by (simp add: is_digits_trim [OF mm] parseInt10_digits [OF mm] fl_nat_exact [OF b1])
  have p2: "parseInt10 (trim ss) = Fin (of_nat (dec_val ss))"
    by (simp add: is_digits_trim [OF ss] parseInt10_digits [OF ss] fl_nat_exact [OF b2])
  have m0: "fl (of_nat (dec_val hh) * 3600) = Fin (of_nat (dec_val hh) * 3600)"
    using fl_nat_mul [OF b3] by simp
  have m1: "fl (of_nat (dec_val mm) * 60) = Fin (of_nat (dec_val mm) * 60)"
    using fl_nat_mul [OF b4] by simp
  have a0: "fl (of_nat (dec_val hh) * 3600 + of_nat (dec_val mm) * 60)
      = Fin (of_nat (dec_val hh) * 3600 + of_nat (dec_val mm) * 60)"
    using fl_nat_add [OF b5] by simp
  have a1: "fl (of_nat (dec_val hh) * 3600 + of_nat (dec_val mm) * 60 + of_nat (dec_val ss))
      = Fin (of_nat (dec_val hh) * 3600 + of_nat (dec_val mm) * 60 + of_nat (dec_val ss))"
    using fl_nat_add [OF bound] by simp
  show ?thesis
    by (simp add: parseDuration_def Let_def tr inc sp p0 p1 p2 m0 m1 a0 a1)
qed

lemma parseDuration_nan_part:
  assumes colon: "CHR '':'' \<in> set t"
    and part: "p \<in> set (split_on CHR '':'' (trim t))"
    and nan: "\<not> has_leading_integer (trim p)"
  shows "parseDuration (JStr t) = Inr (Fin 0)"
proof -
  have ne: "t \<noteq> []" using colon by auto
  have inc: "js_includes (trim t) [CHR '':'']"
    using mem_trim [OF colon colon_not_ws] by (rule js_includes_mem)
  have "isNaN (parseInt10 (trim p))" using parseInt10_no_integer [OF nan] by simp
  with part have ex: "list_ex isNaN (map (\<lambda>part. parseInt10 (trim part)) (split_on CHR '':'' (trim t)))"
    by (auto simp: list_ex_iff)
  show ?thesis
    using ne inc ex by (simp add: parseDuration_def Let_def)
qed

lemma parseDuration_12_05: "parseDuration (JStr ''12:05'') = Inr (Fin 725)"
  by (simp add: parseDuration_def str_eval fl_eval)

lemma parseDuration_1_23_45: "parseDuration (JStr ''1:23:45'') = Inr (Fin 5025)"
  by (simp add: parseDuration_def str_eval fl_eval)

lemma fl_int_exact:
  assumes "\<bar>z\<bar> < 2 ^ 53"
  shows "fl (of_int z) = Fin (of_int z)"
proof (cases "0 \<le> z")
  case True
  then have "nat z < 2 ^ 53" using assms by (simp add: nat_less_iff)
  from fl_nat_exact [OF this] True show ?thesis by simp
next
  case False
  then have n: "nat (- z) < 2 ^ 53" "0 < nat (- z)" using assms by (simp_all add: nat_less_iff)
  have "fl_pos (of_nat (nat (- z))) = Fin (of_nat (nat (- z)))"
    using fl_pos_nat_exact [OF n(2) n(1)] .
  moreover have "(of_nat (nat (- z)) :: rat) = - of_int z" using False by simp
  ultimately show ?thesis using False by (simp add: fl_def)
qed

lemma dropWhile_append_keep:
  "ys \<noteq> [] \<Longrightarrow> \<not> P (hd ys) \<Longrightarrow> dropWhile P (xs @ ys) = dropWhile P xs @ ys"
  by (induction xs) (simp_all add: dropWhile_hd_id)

lemma dropWhile_all: "list_all P xs \<Longrightarrow> ys \<noteq> [] \<Longrightarrow> \<not> P (hd ys) \<Longrightarrow> dropWhile P (xs @ ys) = ys"
  by (induction xs) (simp_all add: dropWhile_hd_id)

lemma trim_end_prefix: "\<exists>s. r = rev (dropWhile P (rev r)) @ s"
proof -
  have "rev (dropWhile P (rev r)) @ rev (takeWhile P (rev r))
      = rev (takeWhile P (rev r) @ dropWhile P (rev r))"
    by (simp only: rev_append)
  also have "\<dots> = r" by (simp only: takeWhile_dropWhile_id rev_rev_ident)
  finally show ?thesis by metis
qed

lemma trim_end_hd:
  "rev (dropWhile P (rev r)) \<noteq> [] \<Longrightarrow> hd (rev (dropWhile P (rev r))) = hd r"
  using trim_end_prefix [of r P] by (metis hd_append2)

lemma sign_not_ws: "\<not> is_ws CHR ''-''" "\<not> is_ws CHR ''+''"
  by (simp_all add: is_ws_def ws_chars_def)

lemma sign_not_digit: "\<not> is_digit CHR ''-''" "\<not> is_digit CHR ''+''"
  by (simp_all add: is_digit_def digit_chars_def)

lemma trim_integer_part:
  assumes "integer_part w sg d r"
  shows "trim (w @ sg @ d @ r) = sg @ d @ rev (dropWhile is_ws (rev r))"
proof -
  from assms have w: "list_all is_ws w" and sg: "sg = [] \<or> sg = ''+'' \<or> sg = ''-''"
    and d: "is_digits d"
    by (auto simp: integer_part_def)
  have dne: "d \<noteq> []" using d by (simp add: is_digits_def)
  have h: "\<not> is_ws (hd (sg @ d @ r))"
    using sg digit_not_ws [OF is_digits_hd [OF d]] dne by (auto simp: sign_not_ws)
  have a: "dropWhile is_ws (w @ sg @ d @ r) = sg @ d @ r"
    using dropWhile_all [OF w _ h] dne by simp
  have l: "\<not> is_ws (hd (rev (sg @ d)))"
    using digit_not_ws [OF is_digits_last [OF d]] dne by (simp add: hd_rev)
  have "dropWhile is_ws (rev r @ rev (sg @ d)) = dropWhile is_ws (rev r) @ rev (sg @ d)"
    using dne l by (intro dropWhile_append_keep) simp_all
  then show ?thesis by (simp add: trim_def a)
qed

lemma parseInt10_integer_part:
  assumes ip: "integer_part w sg d r" and b: "dec_val d < 2 ^ 53"
  shows "parseInt10 (trim (w @ sg @ d @ r)) = Fin (of_int (integer_of sg d))"
proof -
  define r' where "r' = rev (dropWhile is_ws (rev r))"
  from ip have sg: "sg = [] \<or> sg = ''+'' \<or> sg = ''-''" and d: "is_digits d"
    and r: "r = [] \<or> \<not> is_digit (hd r)"
    by (auto simp: integer_part_def split: list.splits)
  have dne: "d \<noteq> []" using d by (simp add: is_digits_def)
  have t: "trim (w @ sg @ d @ r) = sg @ d @ r'"
    using trim_integer_part [OF ip] by (simp add: r'_def)
  have r': "r' = [] \<or> \<not> is_digit (hd r')"
  proof (cases "r' = []")
    case False
    then have "hd r' = hd r" unfolding r'_def by (rule trim_end_hd)
    moreover have "r \<noteq> []" using False by (auto simp: r'_def)
    ultimately show ?thesis using r by simp
  qed simp
  have h: "\<not> is_ws (hd (sg @ d @ r'))"
    using sg digit_not_ws [OF is_digits_hd [OF d]] dne by (auto simp: sign_not_ws)
  have ts: "trimStart (sg @ d @ r') = sg @ d @ r'"
    unfolding trimStart_def using dne h by (intro dropWhile_hd_id) simp_all
  have ps: "parse_sign (sg @ d @ r') = (sg = ''-'', d @ r')"
    using sg digit_not_sign [OF is_digits_hd [OF d]] dne
    by (cases d) (auto simp: parse_sign_def)
  have "takeWhile is_digit r' = []" using r' by (cases r') simp_all
  moreover have "\<forall>x \<in> set d. is_digit x" using d by (simp add: is_digits_def list_all_iff)
  ultimately have tw: "takeWhile is_digit (d @ r') = d" by simp
  show ?thesis
    unfolding t parseInt10_def ts ps
    using dne by (simp add: tw fl_nat_exact [OF b] integer_of_def)
qed

lemma split_on_two_colon: "split_on c s = [a, b] \<Longrightarrow> c \<in> set s"
  using split_on_no_sep [of c s] by auto

lemma split_on_three_colon: "split_on c s = [a, b, d] \<Longrightarrow> c \<in> set s"
  using split_on_no_sep [of c s] by auto

lemma trim_nonempty: "trim t \<noteq> [] \<Longrightarrow> t \<noteq> []"
  by (auto simp: trim_def)

lemma parseDuration_two_parts:
  assumes sp: "split_on CHR '':'' (trim t) = [p1, p2]"
    and v1: "parseInt10 (trim p1) = Fin x" and v2: "parseInt10 (trim p2) = Fin y"
  shows "parseDuration (JStr t) = Inr (js_add (js_mul (Fin x) (Fin 60)) (Fin y))"
proof -
  have c: "CHR '':'' \<in> set (trim t)" using sp by (rule split_on_two_colon)
  then have ne: "t \<noteq> []" by (auto simp: trim_def)
  have inc: "js_includes (trim t) [CHR '':'']" using c by (rule js_includes_mem)
  show ?thesis
    using ne inc by (simp add: parseDuration_def Let_def sp v1 v2)
qed

lemma parseDuration_three_parts:
  assumes sp: "split_on CHR '':'' (trim t) = [p0, p1, p2]"
    and v0: "parseInt10 (trim p0) = Fin x"
    and v1: "parseInt10 (trim p1) = Fin y" and v2: "parseInt10 (trim p2) = Fin z"
  shows "parseDuration (JStr t)
           = Inr (js_add (js_add (js_mul (Fin x) (Fin 3600)) (js_mul (Fin y) (Fin 60))) (Fin z))"
proof -
  have c: "CHR '':'' \<in> set (trim t)" using sp by (rule split_on_three_colon)
  then have ne: "t \<noteq> []" by (auto simp: trim_def)
  have inc: "js_includes (trim t) [CHR '':'']" using c by (rule js_includes_mem)
  show ?thesis
    using ne inc by (simp add: parseDuration_def Let_def sp v0 v1 v2)
qed

lemma integer_of_abs: "\<bar>integer_of sg d\<bar> = int (dec_val d)"
  by (simp add: integer_of_def)

lemma fl_int_mul:
  "\<bar>a * b\<bar> < 2 ^ 53 \<Longrightarrow> fl (of_int a * of_int b) = Fin (of_int (a * b))"
  using fl_int_exact [of "a * b"] by simp

lemma fl_int_add:
  "\<bar>a + b\<bar> < 2 ^ 53 \<Longrightarrow> fl (of_int a + of_int b) = Fin (of_int (a + b))"
  using fl_int_exact [of "a + b"] by simp

lemma abs_bound2:
  fixes a b N :: int
  assumes "\<bar>a\<bar> * 60 + \<bar>b\<bar> < N"
  shows "\<bar>a * 60\<bar> < N" and "\<bar>a * 60 + b\<bar> < N"
  using assms by linarith+

lemma abs_bound3:
  fixes h a b N :: int
  assumes "\<bar>h\<bar> * 3600 + \<bar>a\<bar> * 60 + \<bar>b\<bar> < N"
  shows "\<bar>h * 3600\<bar> < N" and "\<bar>a * 60\<bar> < N" and "\<bar>h * 3600 + a * 60\<bar> < N"
    and "\<bar>h * 3600 + a * 60 + b\<bar> < N"
  using assms by linarith+

lemma int_bound: "(n::nat) < 2 ^ 53 \<Longrightarrow> int n < 2 ^ 53"
  by simp

lemma parseDuration_integer_parts2:
  assumes sp: "split_on CHR '':'' (trim t) = [w1 @ sg1 @ d1 @ r1, w2 @ sg2 @ d2 @ r2]"
    and i1: "integer_part w1 sg1 d1 r1" and i2: "integer_part w2 sg2 d2 r2"
    and bound: "dec_val d1 * 60 + dec_val d2 < 2 ^ 53"
  shows "parseDuration (JStr t)
           = Inr (Fin (of_int (integer_of sg1 d1 * 60 + integer_of sg2 d2)))"
proof -
  define a where "a = integer_of sg1 d1"
  define b where "b = integer_of sg2 d2"
  have b1: "dec_val d1 < 2 ^ 53" and b2: "dec_val d2 < 2 ^ 53" using bound by simp_all
  have aa: "\<bar>a\<bar> = int (dec_val d1)" and ab: "\<bar>b\<bar> = int (dec_val d2)"
    by (simp_all add: a_def b_def integer_of_abs)
  have ib: "\<bar>a\<bar> * 60 + \<bar>b\<bar> < 2 ^ 53"
    unfolding aa ab using int_bound [OF bound] by simp
  note m = abs_bound2(1) [OF ib] and s = abs_bound2(2) [OF ib]
  have v1: "parseInt10 (trim (w1 @ sg1 @ d1 @ r1)) = Fin (of_int a)"
    unfolding a_def using i1 b1 by (rule parseInt10_integer_part)
  have v2: "parseInt10 (trim (w2 @ sg2 @ d2 @ r2)) = Fin (of_int b)"
    unfolding b_def using i2 b2 by (rule parseInt10_integer_part)
  have e1: "fl (of_int a * 60) = Fin (of_int (a * 60))" using fl_int_mul [OF m] by simp
  have e2: "fl (of_int (a * 60) + of_int b) = Fin (of_int (a * 60 + b))" using s by (rule fl_int_add)
  have "parseDuration (JStr t) = Inr (js_add (js_mul (Fin (of_int a)) (Fin 60)) (Fin (of_int b)))"
    using sp v1 v2 by (rule parseDuration_two_parts)
  also have "\<dots> = Inr (Fin (of_int (a * 60 + b)))"
    by (simp only: js_mul.simps js_add.simps e1 e2)
  finally show ?thesis by (simp only: a_def b_def)
qed

lemma parseDuration_integer_parts3:
  assumes sp: "split_on CHR '':'' (trim t)
                 = [w0 @ sg0 @ d0 @ r0, w1 @ sg1 @ d1 @ r1, w2 @ sg2 @ d2 @ r2]"
    and i0: "integer_part w0 sg0 d0 r0"
    and i1: "integer_part w1 sg1 d1 r1" and i2: "integer_part w2 sg2 d2 r2"
    and bound: "dec_val d0 * 3600 + dec_val d1 * 60 + dec_val d2 < 2 ^ 53"
  shows "parseDuration (JStr t)
           = Inr (Fin (of_int (integer_of sg0 d0 * 3600 + integer_of sg1 d1 * 60
                                 + integer_of sg2 d2)))"
proof -
  define h where "h = integer_of sg0 d0"
  define a where "a = integer_of sg1 d1"
  define b where "b = integer_of sg2 d2"
  have b0: "dec_val d0 < 2 ^ 53" and b1: "dec_val d1 < 2 ^ 53" and b2: "dec_val d2 < 2 ^ 53"
    using bound by simp_all
  have ah: "\<bar>h\<bar> = int (dec_val d0)" and aa: "\<bar>a\<bar> = int (dec_val d1)"
    and ab: "\<bar>b\<bar> = int (dec_val d2)"
    by (simp_all add: h_def a_def b_def integer_of_abs)
  have ib: "\<bar>h\<bar> * 3600 + \<bar>a\<bar> * 60 + \<bar>b\<bar> < 2 ^ 53"
    unfolding ah aa ab using int_bound [OF bound] by simp
  note mh = abs_bound3(1) [OF ib] and ma = abs_bound3(2) [OF ib]
    and s1 = abs_bound3(3) [OF ib] and s2 = abs_bound3(4) [OF ib]
  have v0: "parseInt10 (trim (w0 @ sg0 @ d0 @ r0)) = Fin (of_int h)"
    unfolding h_def using i0 b0 by (rule parseInt10_integer_part)
  have v1: "parseInt10 (trim (w1 @ sg1 @ d1 @ r1)) = Fin (of_int a)"
    unfolding a_def using i1 b1 by (rule parseInt10_integer_part)
  have v2: "parseInt10 (trim (w2 @ sg2 @ d2 @ r2)) = Fin (of_int b)"
    unfolding b_def using i2 b2 by (rule parseInt10_integer_part)
  have e0: "fl (of_int h * 3600) = Fin (of_int (h * 3600))" using fl_int_mul [OF mh] by simp
  have e1: "fl (of_int a * 60) = Fin (of_int (a * 60))" using fl_int_mul [OF ma] by simp
  have e2: "fl (of_int (h * 3600) + of_int (a * 60)) = Fin (of_int (h * 3600 + a * 60))"
    using s1 by (rule fl_int_add)
  have e3: "fl (of_int (h * 3600 + a * 60) + of_int b) = Fin (of_int (h * 3600 + a * 60 + b))"
    using s2 by (rule fl_int_add)
  have "parseDuration (JStr t)
      = Inr (js_add (js_add (js_mul (Fin (of_int h)) (Fin 3600)) (js_mul (Fin (of_int a)) (Fin 60)))
               (Fin (of_int b)))"
    using sp v0 v1 v2 by (rule parseDuration_three_parts)
  also have "\<dots> = Inr (Fin (of_int (h * 3600 + a * 60 + b)))"
    by (simp only: js_mul.simps js_add.simps e0 e1 e2 e3)
  finally show ?thesis by (simp only: h_def a_def b_def)
qed

text \<open>
  C6, as amended.  For digit strings \<open>mm\<close>, \<open>ss\<close> (and \<open>hh\<close>) whose total is below
  \<open>2 ^ 53\<close>, \<open>parseDuration\<close> returns on \<open>mm:ss\<close> exactly \<open>60 mm + ss\<close> and on
  \<open>hh:mm:ss\<close> exactly \<open>3600 hh + 60 mm + ss\<close> (12:05 gives 725, 1:23:45 gives 5025).  A
  text with a colon gives 0 whenever \<open>parseInt\<close> finds no integer at the start of one of
  its parts.  A part that starts with an integer and goes on with other text counts with
  that integer: when the trimmed text has two or three parts and each part is white space,
  an optional sign, a digit string and a rest that does not go on with a digit, the result
  is exactly \<open>60 m + s\<close> or \<open>3600 h + 60 m + s\<close> for the signed integers \<open>h\<close>, \<open>m\<close>,
  \<open>s\<close> the parts start with (magnitudes with a total below \<open>2 ^ 53\<close>).
\<close>

theorem parseDuration_colon:
  "(is_digits mm \<and> is_digits ss \<and> dec_val mm * 60 + dec_val ss < 2 ^ 53 \<longrightarrow>
      parseDuration (JStr (mm @ '':'' @ ss))
        = Inr (Fin (of_nat (dec_val mm * 60 + dec_val ss))))
   \<and> (is_digits hh \<and> is_digits mm' \<and> is_digits ss'
        \<and> dec_val hh * 3600 + dec_val mm' * 60 + dec_val ss' < 2 ^ 53 \<longrightarrow>
      parseDuration (JStr (hh @ '':'' @ mm' @ '':'' @ ss'))
        = Inr (Fin (of_nat (dec_val hh * 3600 + dec_val mm' * 60 + dec_val ss'))))
   \<and> (CHR '':'' \<in> set t \<and> p \<in> set (split_on CHR '':'' (trim t))
        \<and> \<not> has_leading_integer (trim p) \<longrightarrow>
      parseDuration (JStr t) = Inr (Fin 0))
   \<and> (split_on CHR '':'' (trim u) = [w1 @ s1 @ d1 @ r1, w2 @ s2 @ d2 @ r2]
        \<and> integer_part w1 s1 d1 r1 \<and> integer_part w2 s2 d2 r2
        \<and> dec_val d1 * 60 + dec_val d2 < 2 ^ 53 \<longrightarrow>
      parseDuration (JStr u)
        = Inr (Fin (of_int (integer_of s1 d1 * 60 + integer_of s2 d2))))
   \<and> (split_on CHR '':'' (trim v) = [wa @ sa @ da @ ra, wb @ sb @ db @ rb, wc @ sc @ dc @ rc]
        \<and> integer_part wa sa da ra \<and> integer_part wb sb db rb \<and> integer_part wc sc dc rc
        \<and> dec_val da * 3600 + dec_val db * 60 + dec_val dc < 2 ^ 53 \<longrightarrow>
      parseDuration (JStr v)
        = Inr (Fin (of_int (integer_of sa da * 3600 + integer_of sb db * 60
                              + integer_of sc dc))))
   \<and> parseDuration (JStr ''12:05'') = Inr (Fin 725)
   \<and> parseDuration (JStr ''1:23:45'') = Inr (Fin 5025)"
  using parseDuration_mm_ss [of mm ss] parseDuration_hh_mm_ss [of hh mm' ss']
    parseDuration_nan_part [of t p] parseDuration_12_05 parseDuration_1_23_45
    parseDuration_integer_parts2 [of u w1 s1 d1 r1 w2 s2 d2 r2]
    parseDuration_integer_parts3 [of v wa sa da ra wb sb db rb wc sc dc rc]
  by simp

lemma dec_val_12: "dec_val ''12'' = 12" by (simp add: dec_val_def digit_val_def)
lemma dec_val_05: "dec_val ''05'' = 5" by (simp add: dec_val_def digit_val_def)
lemma dec_val_1: "dec_val ''1'' = 1" by (simp add: dec_val_def digit_val_def)
lemma dec_val_23: "dec_val ''23'' = 23" by (simp add: dec_val_def digit_val_def)
lemma dec_val_45: "dec_val ''45'' = 45" by (simp add: dec_val_def digit_val_def)
lemma dec_val_02: "dec_val ''02'' = 2" by (simp add: dec_val_def digit_val_def)
lemma dec_val_03: "dec_val ''03'' = 3" by (simp add: dec_val_def digit_val_def)

lemma split_1_x: "split_on CHR '':'' (trim ''1:xx'') = [''1'', ''xx'']"
  by code_simp

lemma trim_xx: "trim ''xx'' = ''xx''"
  by code_simp

lemma split_12_05_PM_trim: "split_on CHR '':'' (trim ''12:05 PM'') = [''12'', ''05 PM'']"
  by code_simp

lemma split_signed: "split_on CHR '':'' (trim ''-1: 02:03 left'') = [''-1'', '' 02'', ''03 left'']"
  by code_simp

lemma integer_part_examples:
  "integer_part [] [] ''12'' []" "integer_part [] [] ''05'' '' PM''"
  "integer_part [] ''-'' ''1'' []" "integer_part '' '' [] ''02'' []"
  "integer_part [] [] ''03'' '' left''"
  by code_simp+

theorem parseDuration_colon_witness:
  "parseDuration (JStr ''12:05'') = Inr (Fin 725)
   \<and> parseDuration (JStr ''1:23:45'') = Inr (Fin 5025)
   \<and> parseDuration (JStr ''1:xx'') = Inr (Fin 0)
   \<and> parseDuration (JStr ''12:05 PM'') = Inr (Fin 725)
   \<and> parseDuration (JStr ''-1: 02:03 left'') = Inr (Fin (- 3477))"
proof -
  have d: "is_digits ''12''" "is_digits ''05''" "is_digits ''1''" "is_digits ''23''" "is_digits ''45''"
    by (simp_all add: is_digits_def is_digit_def digit_chars_def)
  have n: "\<not> has_leading_integer (trim ''xx'')"
    by (simp add: trim_xx has_leading_integer_def trimStart_def is_ws_def ws_chars_def
        parse_sign_def is_digit_def digit_chars_def)
  have sp2: "split_on CHR '':'' (trim ''12:05 PM'') = [[] @ [] @ ''12'' @ [], [] @ [] @ ''05'' @ '' PM'']"
    using split_12_05_PM_trim by simp
  have sp3: "split_on CHR '':'' (trim ''-1: 02:03 left'')
      = [[] @ ''-'' @ ''1'' @ [], '' '' @ [] @ ''02'' @ [], [] @ [] @ ''03'' @ '' left'']"
    using split_signed by simp
  have b2: "dec_val ''12'' * 60 + dec_val ''05'' < 2 ^ 53"
    by (simp add: dec_val_12 dec_val_05)
  have b3: "dec_val ''1'' * 3600 + dec_val ''02'' * 60 + dec_val ''03'' < 2 ^ 53"
    by (simp add: dec_val_1 dec_val_02 dec_val_03)
  have v2: "integer_of [] ''12'' * 60 + integer_of [] ''05'' = 725"
    by (simp add: integer_of_def dec_val_12 dec_val_05)
  have v3: "integer_of ''-'' ''1'' * 3600 + integer_of [] ''02'' * 60 + integer_of [] ''03'' = - 3477"
    by (simp add: integer_of_def dec_val_1 dec_val_02 dec_val_03)
  note th = parseDuration_colon [where mm = "''12''" and ss = "''05''" and hh = "''1''"
      and mm' = "''23''" and ss' = "''45''" and t = "''1:xx''" and p = "''xx''"
      and u = "''12:05 PM''" and ?w1.0 = "[]" and ?s1.0 = "[]" and ?d1.0 = "''12''" and ?r1.0 = "[]"
      and ?w2.0 = "[]" and ?s2.0 = "[]" and ?d2.0 = "''05''" and ?r2.0 = "'' PM''"
      and v = "''-1: 02:03 left''" and wa = "[]" and sa = "''-''" and da = "''1''" and ra = "[]"
      and wb = "'' ''" and sb = "[]" and db = "''02''" and rb = "[]"
      and wc = "[]" and sc = "[]" and dc = "''03''" and rc = "'' left''"]
  have c4: "parseDuration (JStr ''12:05 PM'') = Inr (Fin 725)"
    using th sp2 integer_part_examples b2 by (simp only: v2 simp_thms of_int_numeral)
  have c5: "parseDuration (JStr ''-1: 02:03 left'') = Inr (Fin (- 3477))"
    using th sp3 integer_part_examples b3 by (simp only: v3 simp_thms of_int_numeral of_int_minus)
  have c13: "parseDuration (JStr ''12:05'') = Inr (Fin 725)
   \<and> parseDuration (JStr ''1:23:45'') = Inr (Fin 5025)
   \<and> parseDuration (JStr ''1:xx'') = Inr (Fin 0)"
    using th d n
    by (simp add: dec_val_12 dec_val_05 dec_val_1 dec_val_23 dec_val_45 split_1_x)
  from c13 c4 c5 show ?thesis by (simp only: simp_thms)
qed

text \<open>
  C6 as stated fails on a part that is not a number but starts with one: \<open>parseInt\<close>
  reads the integer and drops the rest, so the result is not 0.
\<close>

lemma split_12_05_PM: "split_on CHR '':'' ''12:05 PM'' = [''12'', ''05 PM'']"
  by code_simp

lemma parseDuration_12_05_PM: "parseDuration (JStr ''12:05 PM'') = Inr (Fin 725)"
  by (simp add: parseDuration_def str_eval fl_eval)

theorem parseDuration_trailing_text:
  "split_on CHR '':'' ''12:05 PM'' = [''12'', ''05 PM'']
   \<and> \<not> list_all is_digit ''05 PM''
   \<and> parseDuration (JStr ''12:05 PM'') = Inr (Fin 725)
   \<and> Fin 725 \<noteq> Fin 0"
  by (simp add: split_12_05_PM parseDuration_12_05_PM is_digit_def digit_chars_def)

section \<open>The \<open>No views\<close> sentinel (C7)\<close>

lemma js_lt_not_le: "js_lt a b \<Longrightarrow> \<not> js_le b a"
  by (cases a; cases b) auto

lemma sentinel_filtered:
  assumes "viewsFilterEnabled st" and "js_lt (Fin 0) (minViews st)" and "viewCount vd = Some ''No views''"
  shows "checkViewsFilter vd st = Inr (filtered ''views'' (LowViews ''No views'' (Fin 0)))"
  using assms js_lt_not_le [OF assms(2)]
  by (simp add: checkViewsFilter_def parseViewCount_No_views)

text \<open>
  C7, as amended.  When the visible text of a card matches no numeric view-count pattern
  and contains the words \<open>No views\<close>, both extractors record the text \<open>No views\<close> as the
  view count, which is not \<open>null\<close>.  Downstream the sentinel is a non-empty text like any
  other: \<open>parseViewCount\<close> reads it as 0, and with the views filter enabled and a positive
  \<open>minViews\<close> the record is filtered with the reason \<open>views\<close> and the parsed count 0.
\<close>

theorem no_views_sentinel:
  assumes "innerText c = Some fullText"
    and "re_exec view_re fullText = None" and "re_exec no_views_re fullText \<noteq> None"
  shows "viewCount (extractVideoData c) = Some ''No views''
       \<and> viewCount (mod_extractVideoData c) = Some ''No views''
       \<and> Some ''No views'' \<noteq> (None :: string option)
       \<and> parseViewCount (JStr ''No views'') = Inr (Fin 0)
       \<and> (viewsFilterEnabled st \<and> js_lt (Fin 0) (minViews st) \<longrightarrow>
            checkViewsFilter (extractVideoData c) st
              = Inr (filtered ''views'' (LowViews ''No views'' (Fin 0))))"
proof -
  have v: "viewCount (extractVideoData c) = Some ''No views''"
    using assms by (simp add: extractVideoData_def extract_viewCount_def)
  have m: "viewCount (mod_extractVideoData c) = Some ''No views''"
    using assms by (simp add: mod_extractVideoData_def extract_viewCount_def)
  show ?thesis
    using v m sentinel_filtered [of st "extractVideoData c"]
    by (simp add: parseViewCount_No_views)
qed

lemma no_views_card_view: "re_exec view_re ''Premiere No views 3 days ago'' = None"
  by code_simp

lemma no_views_card_phrase: "re_exec no_views_re ''Premiere No views 3 days ago'' \<noteq> None"
  by code_simp

theorem no_views_sentinel_witness:
  "viewCount (extractVideoData no_views_card) = Some ''No views''
   \<and> checkViewsFilter (extractVideoData no_views_card) DEFAULT_FILTER_SETTINGS
       = Inr (filtered ''views'' (LowViews ''No views'' (Fin 0)))"
proof -
  have i: "innerText no_views_card = Some ''Premiere No views 3 days ago''"
    by (simp add: no_views_card_def)
  show ?thesis
    using no_views_sentinel [OF i no_views_card_view no_views_card_phrase, of DEFAULT_FILTER_SETTINGS]
    by (simp add: DEFAULT_FILTER_SETTINGS_def)
qed

text \<open>
  C7 as stated fails downstream: the sentinel is not treated as missing view data (reason
  \<open>no-views\<close>, as for \<open>null\<close>) but as a view count that parses to 0 (reason \<open>views\<close>).
\<close>

theorem sentinel_parsed_as_zero:
  "checkViewsFilter (empty_data\<lparr>viewCount := Some ''No views''\<rparr>) DEFAULT_FILTER_SETTINGS
     = Inr \<lparr>shouldFilter = True, reason = Some ''views'',
            details = Some (LowViews ''No views'' (Fin 0))\<rparr>
   \<and> checkViewsFilter empty_data DEFAULT_FILTER_SETTINGS
     = Inr \<lparr>shouldFilter = True, reason = Some ''no-views'', details = Some NoViewCount\<rparr>"
  by (simp add: checkViewsFilter_def parseViewCount_No_views empty_data_def
      DEFAULT_FILTER_SETTINGS_def filtered_def)

section \<open>One pass of the scan (helper facts)\<close>

lemma checkViewsFilter_returns: "\<exists>d. checkViewsFilter vd st = Inr d"
proof (cases "viewCount vd")
  case None
  then show ?thesis by (simp add: checkViewsFilter_def)
next
  case (Some vc)
  from parseViewCount_returns [of "JStr vc"] obtain n where "parseViewCount (JStr vc) = Inr n" ..
  with Some show ?thesis by (simp add: checkViewsFilter_def)
qed

lemma mod_checkViewsFilter_returns: "\<exists>d. mod_checkViewsFilter vd st = Inr d"
proof (cases "viewCount vd")
  case None
  then show ?thesis by (simp add: mod_checkViewsFilter_def)
next
  case (Some vc)
  from parseViewCount_returns [of "JStr vc"] obtain n where "parseViewCount (JStr vc) = Inr n" ..
  with Some show ?thesis by (simp add: mod_checkViewsFilter_def)
qed

lemma triggeredFilter_returns: "\<exists>r. triggeredFilter vd st = Inr r"
proof -
  obtain f1 f2 f3 f4 where "checkViewsFilter vd st = Inr f1" "checkDurationFilter vd st = Inr f2"
    "checkAgeFilter vd st = Inr f3" "checkKeywordsFilter vd st = Inr f4"
    using checkViewsFilter_returns checkDurationFilter_returns checkAgeFilter_returns
      checkKeywordsFilter_returns by metis
  then show ?thesis by (simp add: triggeredFilter_def)
qed

lemma applyAllFilters_returns: "\<exists>r. applyAllFilters vd st = Inr r"
proof -
  obtain g1 f2 f3 g4 where "mod_checkViewsFilter vd st = Inr g1" "checkDurationFilter vd st = Inr f2"
    "checkAgeFilter vd st = Inr f3" "mod_checkKeywordsFilter vd st = Inr g4"
    using mod_checkViewsFilter_returns checkDurationFilter_returns checkAgeFilter_returns
      keywords_body_returns unfolding mod_checkKeywordsFilter_def by metis
  then show ?thesis
    by (simp add: applyAllFilters_def getAllFilterFunctions_def checkChannelFilter_def no_filter_def)
qed

text \<open>Facts about one pass, for any extractor and any orchestrator that returns.\<close>

lemma process_card_tagged:
  "tagged c \<Longrightarrow> process_card ex ev st c s
     = Inr (s\<lparr>alreadyFilteredCount := Suc (alreadyFilteredCount s), cards_done := cards_done s @ [c]\<rparr>)"
  by (simp add: process_card_def)

lemma process_card_returns:
  assumes "\<forall>vd. \<exists>r. ev vd st = Inr r"
  shows "\<exists>s'. process_card ex ev st c s = Inr s'
            \<and> cards_done s' = cards_done s @ [card_after ex ev st c]"
proof (cases "tagged c")
  case True
  then show ?thesis by (simp add: process_card_def card_after_def)
next
  case False
  from assms obtain r where r: "ev (ex c) st = Inr r" by blast
  with False show ?thesis
    by (cases r) (simp_all add: process_card_def card_after_def Let_def)
qed

lemma scan_cards_shape:
  assumes "\<forall>vd. \<exists>r. ev vd st = Inr r"
  shows "snd (scan_cards (process_card ex ev st) cs s) = None
       \<and> cards_done (fst (scan_cards (process_card ex ev st) cs s))
           = cards_done s @ map (card_after ex ev st) cs"
proof (induction cs arbitrary: s)
  case Nil
  show ?case by simp
next
  case (Cons c cs)
  from process_card_returns [where ev = ev and st = st and ex = ex and c = c and s = s, OF assms] obtain s' where
    s': "process_card ex ev st c s = Inr s'" "cards_done s' = cards_done s @ [card_after ex ev st c]"
    by blast
  with Cons.IH [of s'] show ?case by simp
qed

text \<open>The statistics, the flag and the calls for the log after a pass depend on the
  untagged cards only.\<close>

lemma scan_cards_skip:
  assumes "\<forall>vd. \<exists>r. ev vd st = Inr r" and "core s = core t"
  shows "core (fst (scan_cards (process_card ex ev st) cs s))
           = core (fst (scan_cards (process_card ex ev st) (filter (\<lambda>c. \<not> tagged c) cs) t))"
  using assms(2)
proof (induction cs arbitrary: s t)
  case Nil
  then show ?case by simp
next
  case (Cons c cs)
  show ?case
  proof (cases "tagged c")
    case True
    have "core (s\<lparr>alreadyFilteredCount := Suc (alreadyFilteredCount s), cards_done := cards_done s @ [c]\<rparr>)
        = core t"
      using Cons.prems by (simp add: core_def)
    from Cons.IH [OF this] True show ?thesis by (simp add: process_card_tagged)
  next
    case False
    from assms(1) obtain r where r: "ev (ex c) st = Inr r" by blast
    show ?thesis
    proof (cases r)
      case None
      have "core (s\<lparr>processedCount := Suc (processedCount s), cards_done := cards_done s @ [c]\<rparr>)
          = core (t\<lparr>processedCount := Suc (processedCount t), cards_done := cards_done t @ [c]\<rparr>)"
        using Cons.prems by (simp add: core_def)
      from Cons.IH [OF this] False r None show ?thesis
        by (simp add: process_card_def Let_def)
    next
      case (Some f)
      let ?ttl = "if str_falsy (title (ex c)) then ''Unknown title'' else key_of (title (ex c))"
      let ?up = "\<lambda>u. u\<lparr>processedCount := Suc (processedCount u),
                       cards_done := cards_done u @ [hideVideoElement c (reason f)],
                       currentStats := stats_incr (stats_incr (currentStats u) (key_of (reason f)))
                                         ''total'',
                       newFilters := True,
                       store_calls := store_calls u @ [(?ttl, details f)]\<rparr>"
      have "core (?up s) = core (?up t)"
        using Cons.prems by (simp add: core_def)
      from Cons.IH [OF this] False r Some show ?thesis
        by (simp add: process_card_def Let_def)
    qed
  qed
qed

text \<open>A pass over cards that are tagged or on which the orchestrator declines changes
  nothing.\<close>

lemma scan_cards_settled:
  assumes "\<forall>c \<in> set cs. tagged c \<or> ev (ex c) st = Inr None"
  shows "snd (scan_cards (process_card ex ev st) cs s) = None
       \<and> core (fst (scan_cards (process_card ex ev st) cs s)) = core s
       \<and> cards_done (fst (scan_cards (process_card ex ev st) cs s)) = cards_done s @ cs"
  using assms
proof (induction cs arbitrary: s)
  case Nil
  show ?case by simp
next
  case (Cons c cs)
  then have rest: "\<forall>c \<in> set cs. tagged c \<or> ev (ex c) st = Inr None" by simp
  show ?case
  proof (cases "tagged c")
    case True
    with Cons.IH [OF rest,
        of "s\<lparr>alreadyFilteredCount := Suc (alreadyFilteredCount s), cards_done := cards_done s @ [c]\<rparr>"]
    show ?thesis by (simp add: process_card_tagged core_def)
  next
    case False
    with Cons.prems have "ev (ex c) st = Inr None" by simp
    with False Cons.IH [OF rest,
        of "s\<lparr>processedCount := Suc (processedCount s), cards_done := cards_done s @ [c]\<rparr>"]
    show ?thesis by (simp add: process_card_def Let_def core_def)
  qed
qed

lemma card_after_settled:
  assumes "\<forall>vd. \<exists>r. ev vd st = Inr r"
  shows "tagged (card_after ex ev st c) \<or> ev (ex (card_after ex ev st c)) st = Inr None"
proof (cases "tagged c")
  case True
  then show ?thesis by (simp add: card_after_def)
next
  case False
  from assms obtain r where r: "ev (ex c) st = Inr r" by blast
  with False show ?thesis
    by (cases r) (simp_all add: card_after_def tagged_def hideVideoElement_def)
qed

lemma card_after_tagged: "tagged c \<Longrightarrow> card_after ex ev st c = c"
  by (simp add: card_after_def)

lemma run_pass_facts:
  assumes tot: "\<forall>vd. \<exists>r. ev vd st = Inr r"
  shows "raised (run_pass ex ev st p) = None"
    and "videoCards (page_after (run_pass ex ev st p)) = map (card_after ex ev st) (videoCards p)"
    and "delta (run_pass ex ev st p)
           = delta (run_pass ex ev st (p\<lparr>videoCards := filter (\<lambda>c. \<not> tagged c) (videoCards p)\<rparr>))"
    and "stored (run_pass ex ev st p)
           = stored (run_pass ex ev st (p\<lparr>videoCards := filter (\<lambda>c. \<not> tagged c) (videoCards p)\<rparr>))"
proof -
  let ?f = "process_card ex ev st"
  let ?sc = "scan_cards ?f (videoCards p) scan_init"
  let ?sc' = "scan_cards ?f (filter (\<lambda>c. \<not> tagged c) (videoCards p)) scan_init"
  have sh: "snd ?sc = None" "cards_done (fst ?sc) = map (card_after ex ev st) (videoCards p)"
    using scan_cards_shape [where ev = ev and st = st and ex = ex and cs = "videoCards p"
        and s = scan_init, OF tot]
    by (simp_all add: scan_init_def)
  have sh': "snd ?sc' = None"
    using scan_cards_shape [where ev = ev and st = st and ex = ex
        and cs = "filter (\<lambda>c. \<not> tagged c) (videoCards p)" and s = scan_init, OF tot]
    by simp
  have co: "core (fst ?sc) = core (fst ?sc')"
    using scan_cards_skip [where ev = ev and st = st and ex = ex and cs = "videoCards p"
        and s = scan_init and t = scan_init, OF tot]
    by simp
  obtain s where s: "?sc = (s, None)" using sh(1) by (cases ?sc) auto
  obtain s' where s': "?sc' = (s', None)" using sh' by (cases ?sc') auto
  from co s s' have eq: "currentStats s = currentStats s'" "newFilters s = newFilters s'"
    "store_calls s = store_calls s'"
    by (simp_all add: core_def)
  show "raised (run_pass ex ev st p) = None"
    using s by (simp add: run_pass_def finish_run_def)
  show "videoCards (page_after (run_pass ex ev st p)) = map (card_after ex ev st) (videoCards p)"
    using s sh(2) by (simp add: run_pass_def finish_run_def)
  show "delta (run_pass ex ev st p)
           = delta (run_pass ex ev st (p\<lparr>videoCards := filter (\<lambda>c. \<not> tagged c) (videoCards p)\<rparr>))"
    using s s' eq by (simp add: run_pass_def finish_run_def)
  show "stored (run_pass ex ev st p)
           = stored (run_pass ex ev st (p\<lparr>videoCards := filter (\<lambda>c. \<not> tagged c) (videoCards p)\<rparr>))"
    using s s' eq by (simp add: run_pass_def finish_run_def)
qed

lemma run_pass_settled:
  assumes "\<forall>c \<in> set (videoCards p). tagged c \<or> ev (ex c) st = Inr None"
  shows "run_pass ex ev st p
           = \<lparr>page_after = p, delta = Some zero_stats, stored = [], raised = None\<rparr>"
proof -
  let ?sc = "scan_cards (process_card ex ev st) (videoCards p) scan_init"
  from scan_cards_settled [where ev = ev and ex = ex and st = st and cs = "videoCards p" and s = scan_init, OF assms]
  have f: "snd ?sc = None" "core (fst ?sc) = core scan_init"
    "cards_done (fst ?sc) = videoCards p"
    by (simp_all add: scan_init_def)
  obtain s where s: "?sc = (s, None)" using f(1) by (cases ?sc) auto
  with f have "currentStats s = zero_stats" "newFilters s = False" "store_calls s = []"
    "cards_done s = videoCards p"
    by (simp_all add: core_def scan_init_def)
  with s show ?thesis by (simp add: run_pass_def finish_run_def)
qed

lemma run_pass_twice:
  assumes tot: "\<forall>vd. \<exists>r. ev vd st = Inr r"
  shows "run_pass ex ev st (page_after (run_pass ex ev st p))
           = \<lparr>page_after = page_after (run_pass ex ev st p), delta = Some zero_stats,
              stored = [], raised = None\<rparr>"
proof (rule run_pass_settled [where ev = ev and ex = ex and st = st])
  show "\<forall>c \<in> set (videoCards (page_after (run_pass ex ev st p))).
          tagged c \<or> ev (ex c) st = Inr None"
    unfolding run_pass_facts(2) [where ev = ev and st = st and ex = ex and p = p, OF tot]
    using card_after_settled [where ev = ev and st = st and ex = ex, OF tot]
    by auto
qed

lemma runAllFilters_run_pass:
  "runAllFilters st p =
     (if \<not> viewsFilterEnabled st \<and> \<not> durationFilterEnabled st \<and> \<not> keywordsFilterEnabled st
         \<and> \<not> ageFilterEnabled st
      then not_run p else run_pass extractVideoData triggeredFilter st p)"
  by (simp add: runAllFilters_def run_pass_def)

lemma runFilters_run_pass:
  "runFilters True (Some st) p =
     (if \<not> (viewsFilterEnabled st \<or> durationFilterEnabled st \<or> keywordFilterEnabled st
            \<or> ageFilterEnabled st)
      then not_run p else run_pass mod_extractVideoData applyAllFilters st p)"
  by (simp add: runFilters_def run_pass_def)

section \<open>Decided cards are skipped (C1)\<close>

text \<open>
  C1.  A card that carries the attribute \<open>data-filtered\<close> is passed over by the callback
  whatever the extractor and the orchestrator are, so neither is applied to it.  A run of
  \<open>runAllFilters\<close> (content.js) and of \<open>runFilters\<close> (engine) raises nothing, leaves every
  tagged card as it is, and has the delta and the history calls of the run over the
  untagged cards alone.  A second run on the page the first one leaves, with the same
  settings, changes nothing on the page and makes no history call; its delta is the
  all-zero one when some filter is on, and there is no delta when every filter is off
  (the function returns before the scan).
\<close>

theorem decided_cards_skipped:
  "(tagged c \<longrightarrow>
      process_card ex ev st c s
        = Inr (s\<lparr>alreadyFilteredCount := Suc (alreadyFilteredCount s),
                 cards_done := cards_done s @ [c]\<rparr>))
   \<and> (let r = runAllFilters st p; r2 = runAllFilters st (page_after r);
            q = p\<lparr>videoCards := filter (\<lambda>c. \<not> tagged c) (videoCards p)\<rparr>
        in raised r = None
         \<and> length (videoCards (page_after r)) = length (videoCards p)
         \<and> (\<forall>i < length (videoCards p).
               tagged (videoCards p ! i) \<longrightarrow> videoCards (page_after r) ! i = videoCards p ! i)
         \<and> delta r = delta (runAllFilters st q) \<and> stored r = stored (runAllFilters st q)
         \<and> page_after r2 = page_after r \<and> stored r2 = [] \<and> raised r2 = None
         \<and> delta r2 = (if viewsFilterEnabled st \<or> durationFilterEnabled st
                          \<or> keywordsFilterEnabled st \<or> ageFilterEnabled st
                       then Some zero_stats else None))
   \<and> (let r = runFilters True (Some st) p; r2 = runFilters True (Some st) (page_after r);
            q = p\<lparr>videoCards := filter (\<lambda>c. \<not> tagged c) (videoCards p)\<rparr>
        in raised r = None
         \<and> length (videoCards (page_after r)) = length (videoCards p)
         \<and> (\<forall>i < length (videoCards p).
               tagged (videoCards p ! i) \<longrightarrow> videoCards (page_after r) ! i = videoCards p ! i)
         \<and> delta r = delta (runFilters True (Some st) q)
         \<and> stored r = stored (runFilters True (Some st) q)
         \<and> page_after r2 = page_after r \<and> stored r2 = [] \<and> raised r2 = None
         \<and> delta r2 = (if viewsFilterEnabled st \<or> durationFilterEnabled st
                          \<or> keywordFilterEnabled st \<or> ageFilterEnabled st
                       then Some zero_stats else None))"
proof -
  have gen: "let r = run_pass ex' ev' st p; r2 = run_pass ex' ev' st (page_after r);
                 q = p\<lparr>videoCards := filter (\<lambda>c. \<not> tagged c) (videoCards p)\<rparr>
             in raised r = None
              \<and> length (videoCards (page_after r)) = length (videoCards p)
              \<and> (\<forall>i < length (videoCards p).
                    tagged (videoCards p ! i) \<longrightarrow> videoCards (page_after r) ! i = videoCards p ! i)
              \<and> delta r = delta (run_pass ex' ev' st q) \<and> stored r = stored (run_pass ex' ev' st q)
              \<and> page_after r2 = page_after r \<and> stored r2 = [] \<and> raised r2 = None
              \<and> delta r2 = Some zero_stats"
    if tot: "\<forall>vd. \<exists>r. ev' vd st = Inr r" for ex' ev'
  proof -
    note f = run_pass_facts [where ev = ev' and st = st and ex = ex' and p = p, OF tot]
    note t = run_pass_twice [where ev = ev' and st = st and ex = ex' and p = p, OF tot]
    have keep: "\<forall>i < length (videoCards p).
        tagged (videoCards p ! i) \<longrightarrow> videoCards (page_after (run_pass ex' ev' st p)) ! i = videoCards p ! i"
      unfolding f(2) by (simp add: card_after_tagged)
    have len: "length (videoCards (page_after (run_pass ex' ev' st p))) = length (videoCards p)"
      unfolding f(2) by simp
    show ?thesis
      unfolding Let_def using f(1) f(3) f(4) keep len by (simp add: t)
  qed
  have off: "let r = not_run p; r2 = not_run (page_after r)
             in raised r = None
              \<and> length (videoCards (page_after r)) = length (videoCards p)
              \<and> (\<forall>i < length (videoCards p).
                    tagged (videoCards p ! i) \<longrightarrow> videoCards (page_after r) ! i = videoCards p ! i)
              \<and> delta r = delta (not_run q') \<and> stored r = stored (not_run q')
              \<and> page_after r2 = page_after r \<and> stored r2 = [] \<and> raised r2 = None
              \<and> delta r2 = None" for q'
    by (simp add: not_run_def)
  have a: "\<forall>vd. \<exists>r. triggeredFilter vd st = Inr r" by (simp add: triggeredFilter_returns)
  have b: "\<forall>vd. \<exists>r. applyAllFilters vd st = Inr r" by (simp add: applyAllFilters_returns)
  have one: "tagged c \<longrightarrow>
      process_card ex ev st c s
        = Inr (s\<lparr>alreadyFilteredCount := Suc (alreadyFilteredCount s),
                 cards_done := cards_done s @ [c]\<rparr>)"
    by (simp add: process_card_tagged)
  have two: "let r = runAllFilters st p; r2 = runAllFilters st (page_after r);
            q = p\<lparr>videoCards := filter (\<lambda>c. \<not> tagged c) (videoCards p)\<rparr>
        in raised r = None
         \<and> length (videoCards (page_after r)) = length (videoCards p)
         \<and> (\<forall>i < length (videoCards p).
               tagged (videoCards p ! i) \<longrightarrow> videoCards (page_after r) ! i = videoCards p ! i)
         \<and> delta r = delta (runAllFilters st q) \<and> stored r = stored (runAllFilters st q)
         \<and> page_after r2 = page_after r \<and> stored r2 = [] \<and> raised r2 = None
         \<and> delta r2 = (if viewsFilterEnabled st \<or> durationFilterEnabled st
                          \<or> keywordsFilterEnabled st \<or> ageFilterEnabled st
                       then Some zero_stats else None)"
  proof (cases "\<not> viewsFilterEnabled st \<and> \<not> durationFilterEnabled st \<and> \<not> keywordsFilterEnabled st
         \<and> \<not> ageFilterEnabled st")
    case True
    then have "\<And>p'. runAllFilters st p' = not_run p'" by (simp add: runAllFilters_run_pass)
    with True show ?thesis by (simp add: Let_def not_run_def)
  next
    case False
    then have "\<And>p'. runAllFilters st p' = run_pass extractVideoData triggeredFilter st p'"
      by (auto simp: runAllFilters_run_pass)
    with False show ?thesis
      using gen [where ev' = triggeredFilter and ex' = extractVideoData, OF a]
      by (auto simp: Let_def)
  qed
  have three: "let r = runFilters True (Some st) p; r2 = runFilters True (Some st) (page_after r);
            q = p\<lparr>videoCards := filter (\<lambda>c. \<not> tagged c) (videoCards p)\<rparr>
        in raised r = None
         \<and> length (videoCards (page_after r)) = length (videoCards p)
         \<and> (\<forall>i < length (videoCards p).
               tagged (videoCards p ! i) \<longrightarrow> videoCards (page_after r) ! i = videoCards p ! i)
         \<and> delta r = delta (runFilters True (Some st) q)
         \<and> stored r = stored (runFilters True (Some st) q)
         \<and> page_after r2 = page_after r \<and> stored r2 = [] \<and> raised r2 = None
         \<and> delta r2 = (if viewsFilterEnabled st \<or> durationFilterEnabled st
                          \<or> keywordFilterEnabled st \<or> ageFilterEnabled st
                       then Some zero_stats else None)"
  proof (cases "\<not> (viewsFilterEnabled st \<or> durationFilterEnabled st \<or> keywordFilterEnabled st
            \<or> ageFilterEnabled st)")
    case True
    then have "\<And>p'. runFilters True (Some st) p' = not_run p'" by (simp add: runFilters_run_pass)
    with True show ?thesis by (simp add: Let_def not_run_def)
  next
    case False
    then have "\<And>p'. runFilters True (Some st) p' = run_pass mod_extractVideoData applyAllFilters st p'"
      by (auto simp: runFilters_run_pass)
    with False show ?thesis
      using gen [where ev' = applyAllFilters and ex' = mod_extractVideoData, OF b]
      by (auto simp: Let_def)
  qed
  from one two three show ?thesis by blast
qed

theorem decided_cards_skipped_witness:
  "tagged (videoCards two_cards ! 0)
   \<and> videoCards (page_after (runAllFilters DEFAULT_FILTER_SETTINGS two_cards)) ! 0
       = videoCards two_cards ! 0
   \<and> delta (runAllFilters DEFAULT_FILTER_SETTINGS
              (page_after (runAllFilters DEFAULT_FILTER_SETTINGS two_cards)))
       = Some zero_stats"
proof -
  have t: "tagged (videoCards two_cards ! 0)"
    by (simp add: two_cards_def tagged_def hideVideoElement_def)
  have l: "0 < length (videoCards two_cards)"
    by (simp add: two_cards_def)
  have e: "viewsFilterEnabled DEFAULT_FILTER_SETTINGS"
    by (simp add: DEFAULT_FILTER_SETTINGS_def)
  show ?thesis
    using decided_cards_skipped [of blank_card extractVideoData triggeredFilter
        DEFAULT_FILTER_SETTINGS scan_init two_cards] t l e
    by (auto simp: Let_def)
qed

section \<open>The statistics delta (C3)\<close>

lemma fl_one: "fl 1 = Fin 1"
  using fl_nat_exact [of 1] by simp

lemma stats_get_incr:
  "stats_get (stats_incr a k) k' = (if k' = k then js_add (stats_get a k) (Fin 1) else stats_get a k')"
  by (simp add: stats_incr_def stats_get_def update_conv')

lemma keys_incr: "take (length a) (map fst (stats_incr a k)) = map fst a"
  by (simp add: stats_incr_def update_keys)

lemma length_incr: "length a \<le> length (stats_incr a k)"
proof -
  have "length (map fst a) \<le> length (map fst (stats_incr a k))"
    unfolding stats_incr_def update_keys by simp
  then show ?thesis by simp
qed

lemma fl_succ: "m < 9007199254740991 \<Longrightarrow> fl (of_nat m + 1) = Fin (1 + of_nat m)"
  using fl_nat_exact [of "Suc m"] by (simp add: add.commute)

lemma stats_get_bump:
  "stats_get (bump a k) k' =
     (if k' = ''total'' then js_add (stats_get (stats_incr a k) ''total'') (Fin 1)
      else if k' = k then js_add (stats_get a k) (Fin 1) else stats_get a k')"
  by (simp add: bump_def stats_get_incr)

lemma fold_bump_other:
  assumes "k' \<noteq> ''total''" and "stats_get a k' = Fin (of_nat m)"
    and "m + length ks < 2 ^ 53"
  shows "stats_get (foldl bump a ks) k' = Fin (of_nat (m + length (filter (\<lambda>k. k = k') ks)))"
  using assms(2,3)
proof (induction ks arbitrary: a m)
  case Nil
  then show ?case by simp
next
  case (Cons k ks)
  show ?case
  proof (cases "k = k'")
    case True
    have "stats_get (bump a k) k' = Fin (of_nat (Suc m))"
      using assms(1) True Cons.prems by (simp add: stats_get_bump fl_succ)
    from Cons.IH [OF this] Cons.prems(2) True show ?thesis by simp
  next
    case False
    have "stats_get (bump a k) k' = Fin (of_nat m)"
      using assms(1) False Cons.prems by (simp add: stats_get_bump)
    from Cons.IH [OF this] Cons.prems(2) False show ?thesis by simp
  qed
qed

lemma fold_bump_total:
  assumes "''total'' \<notin> set ks" and "stats_get a ''total'' = Fin (of_nat m)"
    and "m + length ks < 2 ^ 53"
  shows "stats_get (foldl bump a ks) ''total'' = Fin (of_nat (m + length ks))"
  using assms
proof (induction ks arbitrary: a m)
  case Nil
  then show ?case by simp
next
  case (Cons k ks)
  then have k: "k \<noteq> ''total''" by auto
  have "stats_get (bump a k) ''total'' = Fin (of_nat (Suc m))"
    using k Cons.prems by (simp add: stats_get_bump stats_get_incr fl_succ)
  from Cons.IH [OF _ this] Cons.prems show ?case by simp
qed

lemma fold_bump_keys: "take (length a) (map fst (foldl bump a ks)) = map fst a"
proof (induction ks arbitrary: a)
  case Nil
  show ?case by simp
next
  case (Cons k ks)
  have l: "length a \<le> length (bump a k)"
    using length_incr [of a k] length_incr [of "stats_incr a k" "''total''"]
    by (simp add: bump_def)
  have b: "take (length a) (map fst (bump a k)) = map fst a"
  proof -
    have "take (length a) (map fst (bump a k))
        = take (length a) (take (length (stats_incr a k)) (map fst (stats_incr (stats_incr a k) ''total'')))"
      using length_incr [of a k] by (simp add: bump_def min_def)
    also have "\<dots> = take (length a) (map fst (stats_incr a k))" by (simp only: keys_incr)
    also have "\<dots> = map fst a" by (rule keys_incr)
    finally show ?thesis .
  qed
  have "take (length a) (map fst (foldl bump a (k # ks)))
      = take (length a) (take (length (bump a k)) (map fst (foldl bump (bump a k) ks)))"
    using l by (simp add: min_def)
  also have "\<dots> = take (length a) (map fst (bump a k))" by (simp only: Cons.IH)
  also have "\<dots> = map fst a" by (rule b)
  finally show ?case .
qed

lemma scan_cards_stats:
  assumes tot: "\<forall>vd. \<exists>r. ev vd st = Inr r"
  shows "currentStats (fst (scan_cards (process_card ex ev st) cs s))
           = foldl bump (currentStats s)
               (map (\<lambda>c. key_of (data_filter_reason (card_after ex ev st c)))
                  (filter (\<lambda>c. \<not> tagged c \<and> tagged (card_after ex ev st c)) cs))"
proof (induction cs arbitrary: s)
  case Nil
  show ?case by simp
next
  case (Cons c cs)
  show ?case
  proof (cases "tagged c")
    case True
    with Cons.IH [of "s\<lparr>alreadyFilteredCount := Suc (alreadyFilteredCount s),
        cards_done := cards_done s @ [c]\<rparr>"]
    show ?thesis by (simp add: process_card_tagged)
  next
    case False
    from tot obtain r where r: "ev (ex c) st = Inr r" by blast
    show ?thesis
    proof (cases r)
      case None
      with False r have ca: "card_after ex ev st c = c" by (simp add: card_after_def)
      from Cons.IH [of "s\<lparr>processedCount := Suc (processedCount s),
          cards_done := cards_done s @ [c]\<rparr>"] False r None ca
      show ?thesis by (simp add: process_card_def Let_def)
    next
      case (Some f)
      with False r have ca: "card_after ex ev st c = hideVideoElement c (reason f)"
        by (simp add: card_after_def)
      have tg: "tagged (hideVideoElement c (reason f))"
        by (simp add: tagged_def hideVideoElement_def)
      have ky: "key_of (data_filter_reason (hideVideoElement c (reason f))) = key_of (reason f)"
        by (simp add: hideVideoElement_def)
      let ?ttl = "if str_falsy (title (ex c)) then ''Unknown title'' else key_of (title (ex c))"
      from Cons.IH [of "s\<lparr>processedCount := Suc (processedCount s),
          cards_done := cards_done s @ [hideVideoElement c (reason f)],
          currentStats := stats_incr (stats_incr (currentStats s) (key_of (reason f))) ''total'',
          newFilters := True,
          store_calls := store_calls s @ [(?ttl, details f)]\<rparr>"] False r Some ca tg ky
      show ?thesis by (simp add: process_card_def Let_def bump_def)
    qed
  qed
qed

lemma newly_filtered_map:
  "newly_filtered cs (map g cs) = map g (filter (\<lambda>c. \<not> tagged c \<and> tagged (g c)) cs)"
  by (induction cs) (simp_all add: newly_filtered_def)

lemma card_after_reason:
  assumes "\<not> tagged c" and "tagged (card_after ex ev st c)"
  shows "\<exists>f. ev (ex c) st = Inr (Some f)
            \<and> data_filter_reason (card_after ex ev st c) = Some (key_of (reason f))"
  using assms
  by (auto simp: card_after_def hideVideoElement_def split: sum.splits option.splits)

lemma checkDurationFilter_reason:
  "checkDurationFilter vd st = Inr f \<Longrightarrow> shouldFilter f \<Longrightarrow> reason f = Some ''duration''"
  by (auto simp: checkDurationFilter_def filtered_def no_filter_def Let_def
      split: if_splits option.splits sum.splits)

lemma checkAgeFilter_reason:
  "checkAgeFilter vd st = Inr f \<Longrightarrow> shouldFilter f \<Longrightarrow> reason f = Some ''age''"
  by (auto simp: checkAgeFilter_def filtered_def no_filter_def
      split: if_splits option.splits sum.splits)

lemma keyword_loop_reason: "shouldFilter (keyword_loop t kws) \<Longrightarrow> reason (keyword_loop t kws) = Some ''keyword''"
  by (induction kws) (auto simp: filtered_def no_filter_def)

lemma keywords_body_reason:
  "keywords_body b vd st = Inr f \<Longrightarrow> shouldFilter f \<Longrightarrow> reason f = Some ''keyword''"
  by (auto simp: keywords_body_def no_filter_def keyword_loop_reason
      split: if_splits option.splits)

lemma find_shouldFilter: "find shouldFilter fs = Some f \<Longrightarrow> f \<in> set fs \<and> shouldFilter f"
  by (induction fs) (auto split: if_splits)

lemma triggeredFilter_reason:
  assumes "triggeredFilter vd st = Inr (Some f)"
  shows "reason f \<in> {Some ''views'', Some ''no-views'', Some ''duration'', Some ''age'', Some ''keyword''}"
proof -
  obtain f1 f2 f3 f4 where r: "checkViewsFilter vd st = Inr f1" "checkDurationFilter vd st = Inr f2"
    "checkAgeFilter vd st = Inr f3" "checkKeywordsFilter vd st = Inr f4"
    using checkViewsFilter_returns checkDurationFilter_returns checkAgeFilter_returns
      checkKeywordsFilter_returns by metis
  with assms have "find shouldFilter [f1, f2, f3, f4] = Some f" by (simp add: triggeredFilter_def)
  from find_shouldFilter [OF this] have f: "f \<in> set [f1, f2, f3, f4]" "shouldFilter f"
    by blast+
  then consider "f = f1" | "f = f2" | "f = f3" | "f = f4" by auto
  then show ?thesis
  proof cases
    case 1
    with r(1) f(2) checkViewsFilter_reason [of vd st f] show ?thesis by auto
  next
    case 2
    with r(2) f(2) checkDurationFilter_reason [of vd st f] show ?thesis by auto
  next
    case 3
    with r(3) f(2) checkAgeFilter_reason [of vd st f] show ?thesis by auto
  next
    case 4
    with r(4) f(2) keywords_body_reason [of "keywordsFilterEnabled st" vd st f] show ?thesis
      by (auto simp: checkKeywordsFilter_def)
  qed
qed

lemma apply_loop_reason:
  assumes "apply_loop fs vd st = Inr (Some f)"
  shows "\<exists>g \<in> set fs. g vd st = Inr f \<and> shouldFilter f"
  using assms by (induction fs) (auto split: sum.splits if_splits)

lemma applyAllFilters_reason:
  assumes "applyAllFilters vd st = Inr (Some f)"
  shows "reason f \<in> {Some ''views'', Some ''duration'', Some ''age'', Some ''keyword''}"
proof -
  from apply_loop_reason [OF assms [unfolded applyAllFilters_def]]
  obtain g where g: "g \<in> set getAllFilterFunctions" "g vd st = Inr f" "shouldFilter f" by blast
  then consider "g = mod_checkViewsFilter" | "g = checkDurationFilter" | "g = checkAgeFilter"
    | "g = mod_checkKeywordsFilter" | "g = checkChannelFilter"
    by (auto simp: getAllFilterFunctions_def)
  then show ?thesis
  proof cases
    case 1
    with g mod_checkViewsFilter_reason [of vd st f] show ?thesis by auto
  next
    case 2
    with g checkDurationFilter_reason [of vd st f] show ?thesis by auto
  next
    case 3
    with g checkAgeFilter_reason [of vd st f] show ?thesis by auto
  next
    case 4
    with g keywords_body_reason [of "keywordFilterEnabled st" vd st f] show ?thesis
      by (auto simp: mod_checkKeywordsFilter_def)
  next
    case 5
    with g show ?thesis by (auto simp: checkChannelFilter_def no_filter_def)
  qed
qed

lemma run_pass_counts:
  assumes tot: "\<forall>vd. \<exists>r. ev vd st = Inr r"
    and nt: "\<forall>vd f. ev vd st = Inr (Some f) \<longrightarrow> key_of (reason f) \<noteq> ''total''"
    and len: "length (videoCards p) < 2 ^ 53"
  shows "\<exists>d. delta (run_pass ex ev st p) = Some d
          \<and> take 5 (map fst d) = [''views'', ''keywords'', ''duration'', ''age'', ''total'']
          \<and> stats_get d ''total''
              = Fin (of_nat (length (newly_filtered (videoCards p)
                                       (videoCards (page_after (run_pass ex ev st p))))))
          \<and> (\<forall>k \<in> {''views'', ''keywords'', ''duration'', ''age''}.
                stats_get d k
                  = Fin (of_nat (count_reason k (newly_filtered (videoCards p)
                                                    (videoCards (page_after (run_pass ex ev st p)))))))"
proof -
  define g where "g = card_after ex ev st"
  define F where "F = filter (\<lambda>c. \<not> tagged c \<and> tagged (g c)) (videoCards p)"
  define ks where "ks = map (\<lambda>c. key_of (data_filter_reason (g c))) F"
  let ?sc = "scan_cards (process_card ex ev st) (videoCards p) scan_init"
  have "snd ?sc = None"
    using scan_cards_shape [where ev = ev and st = st and ex = ex and cs = "videoCards p"
        and s = scan_init, OF tot] by simp
  then obtain s where s: "?sc = (s, None)" by (cases ?sc) auto
  have cur: "currentStats s = foldl bump zero_stats ks"
    using scan_cards_stats [where ev = ev and st = st and ex = ex and cs = "videoCards p"
        and s = scan_init, OF tot] s
    by (simp add: ks_def F_def g_def scan_init_def)
  have d: "delta (run_pass ex ev st p) = Some (foldl bump zero_stats ks)"
    using s cur by (simp add: run_pass_def finish_run_def)
  have N: "newly_filtered (videoCards p) (videoCards (page_after (run_pass ex ev st p))) = map g F"
    unfolding run_pass_facts(2) [where ev = ev and st = st and ex = ex and p = p, OF tot]
    by (simp add: newly_filtered_map F_def g_def)
  have lF: "length F \<le> length (videoCards p)" by (simp add: F_def)
  have lk: "length ks = length F" by (simp add: ks_def)
  have bound: "0 + length ks < (2::nat) ^ 53" using lF lk len by simp
  have rs: "\<exists>f. ev (ex c) st = Inr (Some f) \<and> data_filter_reason (g c) = Some (key_of (reason f))"
    if "c \<in> set F" for c
    using that card_after_reason [of c ex ev st] by (simp add: F_def g_def)
  have nott: "''total'' \<notin> set ks"
  proof
    assume "''total'' \<in> set ks"
    then obtain c where c: "c \<in> set F" "key_of (data_filter_reason (g c)) = ''total''"
      by (auto simp: ks_def)
    from rs [OF c(1)] obtain f where "ev (ex c) st = Inr (Some f)"
      "data_filter_reason (g c) = Some (key_of (reason f))" by blast
    with c(2) nt show False by auto
  qed
  have cnt: "count_reason k (map g F) = length (filter (\<lambda>k'. k' = k) ks)" for k
  proof -
    have "filter (\<lambda>c. data_filter_reason (g c) = Some k) F
        = filter (\<lambda>c. key_of (data_filter_reason (g c)) = k) F"
    proof (rule filter_cong [OF refl])
      fix c assume "c \<in> set F"
      from rs [OF this] show "(data_filter_reason (g c) = Some k) = (key_of (data_filter_reason (g c)) = k)"
        by auto
    qed
    then show ?thesis
      by (simp add: count_reason_def ks_def filter_map o_def)
  qed
  have z: "stats_get zero_stats k = Fin (of_nat 0)"
    if "k \<in> {''views'', ''keywords'', ''duration'', ''age'', ''total''}" for k
    using that by (auto simp: stats_get_def zero_stats_def)
  have l5: "length zero_stats = 5" by (simp add: zero_stats_def)
  have mz: "map fst zero_stats = [''views'', ''keywords'', ''duration'', ''age'', ''total'']"
    by (simp add: zero_stats_def)
  have keys: "take 5 (map fst (foldl bump zero_stats ks))
      = [''views'', ''keywords'', ''duration'', ''age'', ''total'']"
    using fold_bump_keys [of zero_stats ks] unfolding l5 mz .
  have tot_c: "stats_get (foldl bump zero_stats ks) ''total'' = Fin (of_nat (length (map g F)))"
    using fold_bump_total [OF nott z bound] lk by simp
  have oth: "stats_get (foldl bump zero_stats ks) k = Fin (of_nat (count_reason k (map g F)))"
    if "k \<in> {''views'', ''keywords'', ''duration'', ''age''}" for k
  proof -
    from that have k: "k \<noteq> ''total''" by auto
    from that have "k \<in> {''views'', ''keywords'', ''duration'', ''age'', ''total''}" by auto
    from fold_bump_other [OF k z [OF this] bound] show ?thesis by (simp add: cnt)
  qed
  show ?thesis
    unfolding N using d keys tot_c oth by blast
qed

lemma sp_title: "title (extractVideoData spoiler_card) = Some ''Ending SPOILER Discussion''"
  by code_simp

lemma sp_trig: "triggeredFilter (extractVideoData spoiler_card) keyword_only
   = Inr (Some (filtered ''keyword'' (BannedKeyword ''spoiler'')))"
  by code_simp

lemma sp_apply: "applyAllFilters (mod_extractVideoData spoiler_card) keyword_only
   = Inr (Some (filtered ''keyword'' (BannedKeyword ''spoiler'')))"
  by code_simp

lemma sp_untagged: "\<not> tagged spoiler_card"
  by (simp add: tagged_def spoiler_card_def)

lemma sp_stats:
  "stats_incr (stats_incr zero_stats ''keyword'') ''total''
     = [(''views'', Fin 0), (''keywords'', Fin 0), (''duration'', Fin 0), (''age'', Fin 0),
        (''total'', Fin 1), (''keyword'', NaN)]"
  by (simp add: stats_incr_def stats_get_def zero_stats_def fl_one)

lemma sp_delta_content:
  "delta (runAllFilters keyword_only spoiler_page)
     = Some (stats_incr (stats_incr zero_stats ''keyword'') ''total'')"
proof -
  have k: "keywordsFilterEnabled keyword_only" by (simp add: keyword_only_def)
  have c: "videoCards spoiler_page = [spoiler_card]" by (simp add: spoiler_page_def)
  show ?thesis
    using k sp_untagged
    by (simp add: runAllFilters_def c process_card_def sp_trig Let_def finish_run_def
        scan_init_def filtered_def)
qed

lemma sp_delta_module:
  "delta (runFilters True (Some keyword_only) spoiler_page)
     = Some (stats_incr (stats_incr zero_stats ''keyword'') ''total'')"
proof -
  have k: "keywordFilterEnabled keyword_only" by (simp add: keyword_only_def)
  have c: "videoCards spoiler_page = [spoiler_card]" by (simp add: spoiler_page_def)
  show ?thesis
    using k sp_untagged
    by (simp add: runFilters_def c process_card_def sp_apply Let_def finish_run_def
        scan_init_def filtered_def)
qed

text \<open>
  What holds of every delta: on a page of fewer than \<open>2 ^ 53\<close> cards, the delta of a pass
  starts with the keys \<open>views\<close>, \<open>keywords\<close>, \<open>duration\<close>, \<open>age\<close>, \<open>total\<close>, in this
  order; its \<open>total\<close> is the number of cards newly filtered in the pass, and each of its
  \<open>views\<close>, \<open>duration\<close> and \<open>age\<close> counters is the number of cards newly filtered with
  that reason.
\<close>

lemma delta_counts:
  assumes "length (videoCards p) < 2 ^ 53"
  shows "(\<forall>d. delta (runAllFilters st p) = Some d \<longrightarrow>
            take 5 (map fst d) = [''views'', ''keywords'', ''duration'', ''age'', ''total'']
          \<and> stats_get d ''total''
              = Fin (of_nat (length (newly_filtered (videoCards p)
                                       (videoCards (page_after (runAllFilters st p))))))
          \<and> (\<forall>k \<in> {''views'', ''duration'', ''age''}.
                stats_get d k
                  = Fin (of_nat (count_reason k (newly_filtered (videoCards p)
                                                    (videoCards (page_after (runAllFilters st p))))))))
       \<and> (\<forall>d. delta (runFilters True (Some st) p) = Some d \<longrightarrow>
            take 5 (map fst d) = [''views'', ''keywords'', ''duration'', ''age'', ''total'']
          \<and> stats_get d ''total''
              = Fin (of_nat (length (newly_filtered (videoCards p)
                                       (videoCards (page_after (runFilters True (Some st) p))))))
          \<and> (\<forall>k \<in> {''views'', ''duration'', ''age''}.
                stats_get d k
                  = Fin (of_nat (count_reason k (newly_filtered (videoCards p)
                                   (videoCards (page_after (runFilters True (Some st) p))))))))"
proof -
  have a: "\<forall>vd. \<exists>r. triggeredFilter vd st = Inr r" by (simp add: triggeredFilter_returns)
  have b: "\<forall>vd. \<exists>r. applyAllFilters vd st = Inr r" by (simp add: applyAllFilters_returns)
  have na: "\<forall>vd f. triggeredFilter vd st = Inr (Some f) \<longrightarrow> key_of (reason f) \<noteq> ''total''"
    using triggeredFilter_reason by fastforce
  have nb: "\<forall>vd f. applyAllFilters vd st = Inr (Some f) \<longrightarrow> key_of (reason f) \<noteq> ''total''"
    using applyAllFilters_reason by fastforce
  note ca = run_pass_counts [where ev = triggeredFilter and ex = extractVideoData and st = st
      and p = p, OF a na assms]
  note cb = run_pass_counts [where ev = applyAllFilters and ex = mod_extractVideoData and st = st
      and p = p, OF b nb assms]
  have one: "\<forall>d. delta (runAllFilters st p) = Some d \<longrightarrow>
            take 5 (map fst d) = [''views'', ''keywords'', ''duration'', ''age'', ''total'']
          \<and> stats_get d ''total''
              = Fin (of_nat (length (newly_filtered (videoCards p)
                                       (videoCards (page_after (runAllFilters st p))))))
          \<and> (\<forall>k \<in> {''views'', ''duration'', ''age''}.
                stats_get d k
                  = Fin (of_nat (count_reason k (newly_filtered (videoCards p)
                                                    (videoCards (page_after (runAllFilters st p)))))))"
  proof (cases "\<not> viewsFilterEnabled st \<and> \<not> durationFilterEnabled st \<and> \<not> keywordsFilterEnabled st
         \<and> \<not> ageFilterEnabled st")
    case True
    then show ?thesis by (simp add: runAllFilters_run_pass not_run_def)
  next
    case False
    then have "runAllFilters st p = run_pass extractVideoData triggeredFilter st p"
      by (auto simp: runAllFilters_run_pass)
    with ca show ?thesis by auto
  qed
  have two: "\<forall>d. delta (runFilters True (Some st) p) = Some d \<longrightarrow>
            take 5 (map fst d) = [''views'', ''keywords'', ''duration'', ''age'', ''total'']
          \<and> stats_get d ''total''
              = Fin (of_nat (length (newly_filtered (videoCards p)
                                       (videoCards (page_after (runFilters True (Some st) p))))))
          \<and> (\<forall>k \<in> {''views'', ''duration'', ''age''}.
                stats_get d k
                  = Fin (of_nat (count_reason k (newly_filtered (videoCards p)
                                   (videoCards (page_after (runFilters True (Some st) p)))))))"
  proof (cases "\<not> (viewsFilterEnabled st \<or> durationFilterEnabled st \<or> keywordFilterEnabled st
            \<or> ageFilterEnabled st)")
    case True
    then show ?thesis by (simp add: runFilters_run_pass not_run_def)
  next
    case False
    then have "runFilters True (Some st) p = run_pass mod_extractVideoData applyAllFilters st p"
      by (auto simp: runFilters_run_pass)
    with cb show ?thesis by auto
  qed
  from one two show ?thesis by blast
qed

lemma delta_counts_spoiler_page:
  "length (videoCards spoiler_page) < 2 ^ 53
   \<and> stats_get (stats_incr (stats_incr zero_stats ''keyword'') ''total'') ''total''
       = Fin (of_nat (length (newly_filtered (videoCards spoiler_page)
                (videoCards (page_after (runAllFilters keyword_only spoiler_page))))))
   \<and> stats_get (stats_incr (stats_incr zero_stats ''keyword'') ''total'') ''views''
       = Fin (of_nat (count_reason ''views'' (newly_filtered (videoCards spoiler_page)
                (videoCards (page_after (runAllFilters keyword_only spoiler_page))))))"
proof -
  have l: "length (videoCards spoiler_page) < 2 ^ 53" by (simp add: spoiler_page_def)
  show ?thesis
    using delta_counts [OF l, of keyword_only] sp_delta_content l by simp
qed

text \<open>The counter \<open>keywords\<close> of a delta is 0 whatever the page and the settings are:
  no reason has this name.\<close>

lemma count_reason_none:
  "\<forall>c \<in> set cs. data_filter_reason c \<noteq> Some k \<Longrightarrow> count_reason k cs = 0"
  by (simp add: count_reason_def filter_empty_conv)

lemma run_pass_keywords_unused:
  assumes tot: "\<forall>vd. \<exists>r. ev vd st = Inr r"
    and rs: "\<forall>vd f. ev vd st = Inr (Some f)
              \<longrightarrow> reason f \<in> {Some ''views'', Some ''no-views'', Some ''duration'', Some ''age'',
                               Some ''keyword''}"
    and len: "length (videoCards p) < 2 ^ 53"
  shows "\<exists>d. delta (run_pass ex ev st p) = Some d \<and> stats_get d ''keywords'' = Fin 0"
proof -
  have nt: "\<forall>vd f. ev vd st = Inr (Some f) \<longrightarrow> key_of (reason f) \<noteq> ''total''"
    using rs by fastforce
  let ?N = "newly_filtered (videoCards p) (videoCards (page_after (run_pass ex ev st p)))"
  have N: "?N = map (card_after ex ev st)
                  (filter (\<lambda>c. \<not> tagged c \<and> tagged (card_after ex ev st c)) (videoCards p))"
    unfolding run_pass_facts(2) [where ev = ev and st = st and ex = ex and p = p, OF tot]
    by (simp add: newly_filtered_map)
  have "\<forall>c \<in> set ?N. data_filter_reason c \<noteq> Some ''keywords''"
  proof
    fix c' assume "c' \<in> set ?N"
    then obtain c where c: "c' = card_after ex ev st c" "\<not> tagged c" "tagged (card_after ex ev st c)"
      unfolding N by auto
    from card_after_reason [OF c(2) c(3)] obtain f where
      f: "ev (ex c) st = Inr (Some f)" "data_filter_reason (card_after ex ev st c) = Some (key_of (reason f))"
      by blast
    from rs f(1) have "key_of (reason f) \<noteq> ''keywords''" by fastforce
    with f(2) c(1) show "data_filter_reason c' \<noteq> Some ''keywords''" by simp
  qed
  then have z: "count_reason ''keywords'' ?N = 0" by (rule count_reason_none)
  from run_pass_counts [where ev = ev and ex = ex and st = st and p = p, OF tot nt len]
  obtain d where d: "delta (run_pass ex ev st p) = Some d"
    "\<forall>k \<in> {''views'', ''keywords'', ''duration'', ''age''}.
        stats_get d k = Fin (of_nat (count_reason k ?N))"
    by blast
  from d(2) have "stats_get d ''keywords'' = Fin (of_nat (count_reason ''keywords'' ?N))" by simp
  with z d(1) show ?thesis by simp
qed

lemma keywords_counter_unused:
  assumes "length (videoCards p) < 2 ^ 53"
  shows "(\<forall>d. delta (runAllFilters st p) = Some d \<longrightarrow> stats_get d ''keywords'' = Fin 0)
       \<and> (\<forall>d. delta (runFilters True (Some st) p) = Some d \<longrightarrow> stats_get d ''keywords'' = Fin 0)"
proof -
  have a: "\<forall>vd. \<exists>r. triggeredFilter vd st = Inr r" by (simp add: triggeredFilter_returns)
  have b: "\<forall>vd. \<exists>r. applyAllFilters vd st = Inr r" by (simp add: applyAllFilters_returns)
  have ra: "\<forall>vd f. triggeredFilter vd st = Inr (Some f)
              \<longrightarrow> reason f \<in> {Some ''views'', Some ''no-views'', Some ''duration'', Some ''age'',
                               Some ''keyword''}"
    using triggeredFilter_reason by blast
  have rb: "\<forall>vd f. applyAllFilters vd st = Inr (Some f)
              \<longrightarrow> reason f \<in> {Some ''views'', Some ''no-views'', Some ''duration'', Some ''age'',
                               Some ''keyword''}"
    using applyAllFilters_reason by blast
  note ka = run_pass_keywords_unused [where ev = triggeredFilter and ex = extractVideoData
      and st = st and p = p, OF a ra assms]
  note kb = run_pass_keywords_unused [where ev = applyAllFilters and ex = mod_extractVideoData
      and st = st and p = p, OF b rb assms]
  have one: "\<forall>d. delta (runAllFilters st p) = Some d \<longrightarrow> stats_get d ''keywords'' = Fin 0"
    using ka by (auto simp: runAllFilters_run_pass not_run_def split: if_splits)
  have two: "\<forall>d. delta (runFilters True (Some st) p) = Some d \<longrightarrow> stats_get d ''keywords'' = Fin 0"
    using kb by (auto simp: runFilters_run_pass not_run_def split: if_splits)
  from one two show ?thesis by blast
qed

text \<open>The page after the pass over the page with one card that holds a banned word.\<close>

lemma sp_after_content:
  "videoCards (page_after (runAllFilters keyword_only spoiler_page))
     = [hideVideoElement spoiler_card (Some ''keyword'')]"
proof -
  have k: "keywordsFilterEnabled keyword_only" by (simp add: keyword_only_def)
  have c: "videoCards spoiler_page = [spoiler_card]" by (simp add: spoiler_page_def)
  show ?thesis
    using k sp_untagged
    by (simp add: runAllFilters_def c process_card_def sp_trig Let_def finish_run_def
        scan_init_def filtered_def)
qed

lemma sp_after_module:
  "videoCards (page_after (runFilters True (Some keyword_only) spoiler_page))
     = [hideVideoElement spoiler_card (Some ''keyword'')]"
proof -
  have k: "keywordFilterEnabled keyword_only" by (simp add: keyword_only_def)
  have c: "videoCards spoiler_page = [spoiler_card]" by (simp add: spoiler_page_def)
  show ?thesis
    using k sp_untagged
    by (simp add: runFilters_def c process_card_def sp_apply Let_def finish_run_def
        scan_init_def filtered_def)
qed

lemma sp_count:
  "count_reason ''keyword'' (newly_filtered [spoiler_card] [hideVideoElement spoiler_card (Some ''keyword'')]) = 1"
  using sp_untagged
  by (simp add: count_reason_def newly_filtered_def tagged_def hideVideoElement_def)

text \<open>
  C3.  The claim is that the delta counts the cards filtered for each reason.  The object
  is created with the counter \<open>keywords\<close>, but the callback counts with
  \<open>currentStats[reason]++\<close> and the reason of the keyword predicate is \<open>keyword\<close>: a
  pass that filters one card for a banned word leaves \<open>keywords\<close> at 0 and adds a key
  \<open>keyword\<close> whose value is NaN, in both implementations.  No counter of the delta holds
  the 1 of that card, and the value under \<open>keyword\<close> is no integer.
\<close>

theorem keyword_counter_NaN:
  "delta (runAllFilters keyword_only spoiler_page)
     = Some [(''views'', Fin 0), (''keywords'', Fin 0), (''duration'', Fin 0), (''age'', Fin 0),
             (''total'', Fin 1), (''keyword'', NaN)]
   \<and> count_reason ''keyword''
        (newly_filtered (videoCards spoiler_page)
           (videoCards (page_after (runAllFilters keyword_only spoiler_page)))) = 1
   \<and> delta (runFilters True (Some keyword_only) spoiler_page)
     = Some [(''views'', Fin 0), (''keywords'', Fin 0), (''duration'', Fin 0), (''age'', Fin 0),
             (''total'', Fin 1), (''keyword'', NaN)]
   \<and> count_reason ''keyword''
        (newly_filtered (videoCards spoiler_page)
           (videoCards (page_after (runFilters True (Some keyword_only) spoiler_page)))) = 1"
proof -
  have c: "videoCards spoiler_page = [spoiler_card]" by (simp add: spoiler_page_def)
  show ?thesis
    using sp_delta_content sp_delta_module sp_count
    by (simp only: sp_stats sp_after_content sp_after_module c simp_thms)
qed

section \<open>Settings validation (C10)\<close>

text \<open>Without the two legacy keys the numeric fields are validated.\<close>

lemma math_floor_nonneg_int:
  "js_ge n (Fin 0) \<Longrightarrow> n \<noteq> PInf \<Longrightarrow> is_nonneg_int (math_floor n)"
  by (cases n) (simp_all add: js_ge_def)

lemma floor_or_valid:
  assumes "is_nonneg_int d" and "v \<noteq> JNum PInf"
  shows "is_nonneg_int (floor_or v d)"
proof (cases v)
  case (JNum n)
  with assms show ?thesis by (auto simp: math_floor_nonneg_int)
qed (simp_all add: assms)

lemma maxAge_or_valid:
  assumes "is_nonneg_int d" and "js_le d (Fin 20)"
  shows "\<exists>n. maxAge_or v (JNum d) = JNum n \<and> is_nonneg_int n \<and> js_le n (Fin 20)"
proof (cases v)
  case (JNum n)
  show ?thesis
  proof (cases "js_ge n (Fin 0) \<and> js_le n (Fin 20)")
    case True
    then obtain x where x: "n = Fin x" "0 \<le> x" "x \<le> 20" by (cases n) (auto simp: js_ge_def)
    then have "of_int \<lfloor>x\<rfloor> \<le> (20::rat)" using of_int_floor_le [of x] by linarith
    with x JNum show ?thesis by (simp add: js_ge_def)
  next
    case False
    with JNum assms show ?thesis by auto
  qed
qed (simp_all add: assms)

lemma main_path_valid:
  assumes "\<not> truthy (raw ''maxAgeYears'')" and "\<not> truthy (raw ''keywords'')"
    and "raw ''minViews'' \<noteq> JNum PInf" and "raw ''minDuration'' \<noteq> JNum PInf"
    and "raw ''maxDuration'' \<noteq> JNum PInf"
  shows "is_nonneg_int (s_minViews (validateAndSanitizeSettings raw))
       \<and> is_nonneg_int (s_minDuration (validateAndSanitizeSettings raw))
       \<and> is_nonneg_int (s_maxDuration (validateAndSanitizeSettings raw))
       \<and> (\<exists>n. s_maxAge (validateAndSanitizeSettings raw) = JNum n \<and> is_nonneg_int n
              \<and> js_le n (Fin 20))"
proof -
  have d: "is_nonneg_int (Fin 10000)" "is_nonneg_int (Fin 60)" "is_nonneg_int (Fin 3600)"
    "is_nonneg_int (Fin 5)" "js_le (Fin 5) (Fin 20)"
    by simp_all
  show ?thesis
    using assms floor_or_valid [OF d(1) assms(3)] floor_or_valid [OF d(2) assms(4)]
      floor_or_valid [OF d(3) assms(5)] maxAge_or_valid [OF d(4) d(5), of "raw ''maxAge''"]
    by (simp add: validateAndSanitizeSettings_def default_sanitized_def Let_def)
qed

lemma spoiler_not_clean: "\<not> clean_string (JString ''  Spoiler '')"
  by code_simp

text \<open>
  C10.  The claim is that every field of the result is valid.  The block for the legacy
  keys runs after the validation and stores \<open>settings.maxAgeYears\<close> and
  \<open>settings.keywords\<close> as they come: a legacy object with \<open>maxAgeYears = 100\<close> and
  \<open>keywords = ["  Spoiler ", ""]\<close> gives \<open>maxAge = 100\<close>, above 20, and keywords that are
  neither trimmed nor lower-case nor non-empty.  Besides, \<open>Math.floor\<close> keeps an infinite
  \<open>minViews\<close>, which is no integer.
\<close>

theorem legacy_keys_unvalidated:
  "s_maxAge (validateAndSanitizeSettings legacy_settings) = JNum (Fin 100)
   \<and> \<not> js_le (Fin 100) (Fin 20)
   \<and> s_bannedKeywords (validateAndSanitizeSettings legacy_settings)
       = JArray [JString ''  Spoiler '', JString []]
   \<and> \<not> clean_string (JString ''  Spoiler '') \<and> \<not> clean_string (JString [])
   \<and> s_minViews (validateAndSanitizeSettings infinite_settings) = PInf
   \<and> \<not> is_nonneg_int PInf"
  using spoiler_not_clean
  by (simp add: validateAndSanitizeSettings_def legacy_settings_def infinite_settings_def
      default_sanitized_def Let_def js_ge_def)

section \<open>The calls for the history log (helper facts)\<close>

text \<open>
  A pass calls \<open>storeFilteredVideo\<close> once for every card it newly hides, in the order of
  the cards, with the title of the card and the details of its decision.
\<close>

lemma scan_cards_store_calls:
  assumes tot: "\<forall>vd. \<exists>r. ev vd st = Inr r"
  shows "store_calls (fst (scan_cards (process_card ex ev st) cs s))
           = store_calls s
             @ map (history_call ex ev st)
                 (filter (\<lambda>c. \<not> tagged c \<and> tagged (card_after ex ev st c)) cs)"
proof (induction cs arbitrary: s)
  case Nil
  show ?case by simp
next
  case (Cons c cs)
  show ?case
  proof (cases "tagged c")
    case True
    with Cons.IH [of "s\<lparr>alreadyFilteredCount := Suc (alreadyFilteredCount s),
        cards_done := cards_done s @ [c]\<rparr>"]
    show ?thesis by (simp add: process_card_tagged)
  next
    case False
    from tot obtain r where r: "ev (ex c) st = Inr r" by blast
    show ?thesis
    proof (cases r)
      case None
      with False r have ca: "card_after ex ev st c = c" by (simp add: card_after_def)
      from Cons.IH [of "s\<lparr>processedCount := Suc (processedCount s),
          cards_done := cards_done s @ [c]\<rparr>"] False r None ca
      show ?thesis by (simp add: process_card_def Let_def)
    next
      case (Some f)
      with False r have ca: "card_after ex ev st c = hideVideoElement c (reason f)"
        by (simp add: card_after_def)
      have tg: "tagged (hideVideoElement c (reason f))"
        by (simp add: tagged_def hideVideoElement_def)
      let ?ttl = "if str_falsy (title (ex c)) then ''Unknown title'' else key_of (title (ex c))"
      have hc: "history_call ex ev st c = (?ttl, details f)"
        using r Some by (simp add: history_call_def)
      from Cons.IH [of "s\<lparr>processedCount := Suc (processedCount s),
          cards_done := cards_done s @ [hideVideoElement c (reason f)],
          currentStats := stats_incr (stats_incr (currentStats s) (key_of (reason f))) ''total'',
          newFilters := True,
          store_calls := store_calls s @ [(?ttl, details f)]\<rparr>"] False r Some ca tg hc
      show ?thesis by (simp add: process_card_def Let_def)
    qed
  qed
qed

lemma run_pass_stored:
  assumes tot: "\<forall>vd. \<exists>r. ev vd st = Inr r"
  shows "stored (run_pass ex ev st p)
           = map (history_call ex ev st)
               (filter (\<lambda>c. \<not> tagged c \<and> tagged (card_after ex ev st c)) (videoCards p))"
proof -
  let ?sc = "scan_cards (process_card ex ev st) (videoCards p) scan_init"
  have "snd ?sc = None"
    using scan_cards_shape [where ev = ev and st = st and ex = ex and cs = "videoCards p"
        and s = scan_init, OF tot] by simp
  then obtain s where s: "?sc = (s, None)" by (cases ?sc) auto
  have "store_calls s
      = map (history_call ex ev st)
          (filter (\<lambda>c. \<not> tagged c \<and> tagged (card_after ex ev st c)) (videoCards p))"
    using scan_cards_store_calls [where ev = ev and st = st and ex = ex and cs = "videoCards p"
        and s = scan_init, OF tot] s
    by (simp add: scan_init_def)
  moreover have "stored (run_pass ex ev st p) = store_calls s"
    using s by (simp add: run_pass_def finish_run_def)
  ultimately show ?thesis by simp
qed

lemma runAllFilters_stored:
  "stored (runAllFilters st p)
     = (if \<not> viewsFilterEnabled st \<and> \<not> durationFilterEnabled st \<and> \<not> keywordsFilterEnabled st
           \<and> \<not> ageFilterEnabled st
        then []
        else map (history_call extractVideoData triggeredFilter st)
               (filter (\<lambda>c. \<not> tagged c \<and> tagged (card_after extractVideoData triggeredFilter st c))
                  (videoCards p)))"
  using run_pass_stored [where ev = triggeredFilter and ex = extractVideoData and st = st
      and p = p] triggeredFilter_returns
  by (simp add: runAllFilters_run_pass not_run_def)

lemma runFilters_stored:
  "stored (runFilters True (Some st) p)
     = (if \<not> (viewsFilterEnabled st \<or> durationFilterEnabled st \<or> keywordFilterEnabled st
              \<or> ageFilterEnabled st)
        then []
        else map (history_call mod_extractVideoData applyAllFilters st)
               (filter (\<lambda>c. \<not> tagged c
                          \<and> tagged (card_after mod_extractVideoData applyAllFilters st c))
                  (videoCards p)))"
  using run_pass_stored [where ev = applyAllFilters and ex = mod_extractVideoData and st = st
      and p = p] applyAllFilters_returns
  by (simp add: runFilters_run_pass not_run_def)

text \<open>
  The callback of one call, on the list it reads: on a list of at most 100 entries the
  result has at most 100 entries and ends with the new entry; below 100 entries nothing is
  removed, at 100 entries exactly the first (oldest) entry is removed.
\<close>

lemma storeFilteredVideo_cap:
  assumes "length videos \<le> 100"
  shows "length (storeFilteredVideo now (Some videos) ttl rsn) \<le> 100
       \<and> last (storeFilteredVideo now (Some videos) ttl rsn)
           = \<lparr>h_title = ttl, h_reason = rsn, h_timestamp = now\<rparr>
       \<and> (length videos < 100 \<longrightarrow>
            storeFilteredVideo now (Some videos) ttl rsn
              = videos @ [\<lparr>h_title = ttl, h_reason = rsn, h_timestamp = now\<rparr>])
       \<and> (length videos = 100 \<longrightarrow>
            storeFilteredVideo now (Some videos) ttl rsn
              = tl videos @ [\<lparr>h_title = ttl, h_reason = rsn, h_timestamp = now\<rparr>])"
proof (cases "length videos = 100")
  case True
  then have ne: "videos \<noteq> []" by auto
  with True show ?thesis
    by (simp add: storeFilteredVideo_def Let_def)
next
  case False
  with assms have "length videos < 100" by simp
  then show ?thesis
    by (simp add: storeFilteredVideo_def Let_def)
qed

text \<open>
  The requests of a pass: every \<open>get\<close> is served before the first \<open>set\<close>, so every
  callback reads the list as it was before the pass, and the last \<open>set\<close> decides.
\<close>

lemma serve_sets: "serve clock (map StorageSet vs) n videos = (if vs = [] then videos else Some (last vs))"
  by (induction vs arbitrary: videos) auto

lemma serve_gets:
  "serve clock (map (\<lambda>(ttl, rsn). StorageGet ttl rsn) calls @ map StorageSet vs) n videos
     = (if calls = [] then (if vs = [] then videos else Some (last vs))
        else Some (storeFilteredVideo (clock (n + length calls - 1)) videos
                     (fst (last calls)) (snd (last calls))))"
proof (induction calls arbitrary: vs n)
  case Nil
  show ?case by (simp add: serve_sets)
next
  case (Cons c calls)
  obtain t r where c: "c = (t, r)" by (cases c)
  have "serve clock (map (\<lambda>(ttl, rsn). StorageGet ttl rsn) (c # calls) @ map StorageSet vs)
          n videos
      = serve clock (map (\<lambda>(ttl, rsn). StorageGet ttl rsn) calls
                      @ map StorageSet (vs @ [storeFilteredVideo (clock n) videos t r]))
          (Suc n) videos"
    by (simp add: c)
  also have "\<dots> = (if calls = [] then Some (storeFilteredVideo (clock n) videos t r)
                   else Some (storeFilteredVideo (clock (Suc n + length calls - 1)) videos
                                (fst (last calls)) (snd (last calls))))"
    unfolding Cons.IH by simp
  finally show ?case by (simp add: c)
qed

lemma history_after_last:
  "history_after clock videos (c # calls)
     = Some (storeFilteredVideo (clock (length calls)) videos
               (fst (last (c # calls))) (snd (last (c # calls))))"
  using serve_gets [of clock "c # calls" "[]" 0 videos]
  by (simp add: history_after_def)

lemma history_after_none: "history_after clock videos [] = videos"
  by (simp add: history_after_def)

lemma history_after_single:
  "history_after clock videos [(ttl, rsn)] = Some (storeFilteredVideo (clock 0) videos ttl rsn)"
  by (simp add: history_after_def)

text \<open>The pass over the page with two cards that hold the banned word.\<close>

lemma sp2_title: "title (extractVideoData spoiler_card2) = Some ''Spoiler review''"
  by code_simp

lemma sp2_mod_title: "title (mod_extractVideoData spoiler_card2) = Some ''Spoiler review''"
  by code_simp

lemma sp_mod_title: "title (mod_extractVideoData spoiler_card) = Some ''Ending SPOILER Discussion''"
  by code_simp

lemma sp2_trig: "triggeredFilter (extractVideoData spoiler_card2) keyword_only
   = Inr (Some (filtered ''keyword'' (BannedKeyword ''spoiler'')))"
  by code_simp

lemma sp2_apply: "applyAllFilters (mod_extractVideoData spoiler_card2) keyword_only
   = Inr (Some (filtered ''keyword'' (BannedKeyword ''spoiler'')))"
  by code_simp

lemma sp2_untagged: "\<not> tagged spoiler_card2"
  by (simp add: tagged_def spoiler_card2_def)

lemma two_spoilers_content:
  "stored (runAllFilters keyword_only two_spoilers)
     = [(''Ending SPOILER Discussion'', Some (BannedKeyword ''spoiler'')),
        (''Spoiler review'', Some (BannedKeyword ''spoiler''))]"
proof -
  have k: "keywordsFilterEnabled keyword_only" by (simp add: keyword_only_def)
  have c: "videoCards two_spoilers = [spoiler_card, spoiler_card2]" by (simp add: two_spoilers_def)
  show ?thesis
    using k sp_untagged sp2_untagged
    by (simp add: runAllFilters_def c process_card_def sp_trig sp2_trig sp_title sp2_title
        Let_def finish_run_def scan_init_def filtered_def)
qed

lemma two_spoilers_module:
  "stored (runFilters True (Some keyword_only) two_spoilers)
     = [(''Ending SPOILER Discussion'', Some (BannedKeyword ''spoiler'')),
        (''Spoiler review'', Some (BannedKeyword ''spoiler''))]"
proof -
  have k: "keywordFilterEnabled keyword_only" by (simp add: keyword_only_def)
  have c: "videoCards two_spoilers = [spoiler_card, spoiler_card2]" by (simp add: two_spoilers_def)
  show ?thesis
    using k sp_untagged sp2_untagged
    by (simp add: runFilters_def c process_card_def sp_apply sp2_apply sp_mod_title sp2_mod_title
        Let_def finish_run_def scan_init_def filtered_def)
qed

section \<open>The history log (C9)\<close>

text \<open>
  C9.  The claim is that each filtered item appends one entry to the log.  A call of
  \<open>storeFilteredVideo\<close> reads the list, appends its entry and writes the list back, and
  the calls of a pass are all made before the first answer of the storage arrives: each
  callback appends to the list as it was before the pass, and the last write replaces the
  others.  After a pass with the calls \<open>c # calls\<close> the log is the log before the pass
  with the entry of the last call alone.  The pass over the page with two cards that hold
  a banned word makes two calls, in both implementations, and the log that was empty has
  one entry afterwards, the second card's; appended in turn the entries would be two.
\<close>

theorem history_lost_update:
  "history_after clock videos (c # calls)
     = Some (storeFilteredVideo (clock (length calls)) videos
               (fst (last (c # calls))) (snd (last (c # calls))))
   \<and> stored (runAllFilters keyword_only two_spoilers)
       = [(''Ending SPOILER Discussion'', Some (BannedKeyword ''spoiler'')),
          (''Spoiler review'', Some (BannedKeyword ''spoiler''))]
   \<and> stored (runFilters True (Some keyword_only) two_spoilers)
       = [(''Ending SPOILER Discussion'', Some (BannedKeyword ''spoiler'')),
          (''Spoiler review'', Some (BannedKeyword ''spoiler''))]
   \<and> history_after clock None
        [(''Ending SPOILER Discussion'', Some (BannedKeyword ''spoiler'')),
         (''Spoiler review'', Some (BannedKeyword ''spoiler''))]
       = Some [\<lparr>h_title = ''Spoiler review'', h_reason = Some (BannedKeyword ''spoiler''),
                 h_timestamp = clock 1\<rparr>]
   \<and> appended_in_turn clock 0 None
        [(''Ending SPOILER Discussion'', Some (BannedKeyword ''spoiler'')),
         (''Spoiler review'', Some (BannedKeyword ''spoiler''))]
       = Some [\<lparr>h_title = ''Ending SPOILER Discussion'',
                 h_reason = Some (BannedKeyword ''spoiler''), h_timestamp = clock 0\<rparr>,
               \<lparr>h_title = ''Spoiler review'', h_reason = Some (BannedKeyword ''spoiler''),
                 h_timestamp = clock 1\<rparr>]"
proof -
  have a: "history_after clock None
        [(''Ending SPOILER Discussion'', Some (BannedKeyword ''spoiler'')),
         (''Spoiler review'', Some (BannedKeyword ''spoiler''))]
       = Some [\<lparr>h_title = ''Spoiler review'', h_reason = Some (BannedKeyword ''spoiler''),
                 h_timestamp = clock 1\<rparr>]"
    by (simp add: history_after_def storeFilteredVideo_def Let_def)
  have b: "appended_in_turn clock 0 None
        [(''Ending SPOILER Discussion'', Some (BannedKeyword ''spoiler'')),
         (''Spoiler review'', Some (BannedKeyword ''spoiler''))]
       = Some [\<lparr>h_title = ''Ending SPOILER Discussion'',
                 h_reason = Some (BannedKeyword ''spoiler''), h_timestamp = clock 0\<rparr>,
               \<lparr>h_title = ''Spoiler review'', h_reason = Some (BannedKeyword ''spoiler''),
                 h_timestamp = clock 1\<rparr>]"
    by (simp add: storeFilteredVideo_def Let_def)
  show ?thesis
    using history_after_last [of clock videos c calls] two_spoilers_content two_spoilers_module a b
    by (simp only: simp_thms)
qed

end
